theory Spec2Isabelle
  imports Complex_Main "HOL-Library.AList" "HOL-Library.Monad_Syntax" "HOL-Library.Code_Target_Nat"
begin

text \<open>
  A shallow embedding of the \<open>Ledger\<close> class (\<open>ledger.ts\<close>): a ledger of entries per
  (account, currency) pair in a key-value store, with a running total and running
  per-context sums kept beside the entries. The operations are functions on an explicit
  store; a rejected promise is a value of the type \<open>error\<close>. The language built-ins the
  class relies on (\<open>parseFloat\<close>, \<open>JSON.stringify\<close>, \<open>JSON.parse\<close>) and the
  store behind the two adapters are modelled first, the class after them, and the
  properties last.
\<close>

section \<open>Strings and decimal digits\<close>

text \<open>
  TypeScript strings are sequences of code units. They are modelled as \<open>string\<close>
  (a list of \<open>char\<close>); a \<open>char\<close> stands for one code unit below 256.
\<close>

definition dquote :: char where
  "dquote = CHR 0x22"

definition backslash :: char where
  "backslash = CHR 0x5C"

definition is_digit :: "char \<Rightarrow> bool" where
  "is_digit c = (48 \<le> (of_char c :: nat) \<and> (of_char c :: nat) \<le> 57)"

definition digit_val :: "char \<Rightarrow> nat" where
  "digit_val c = of_char c - 48"

definition digit_char :: "nat \<Rightarrow> char" where
  "digit_char n = char_of (48 + n)"

definition digits_val :: "string \<Rightarrow> nat" where
  "digits_val ds = foldl (\<lambda>a c. 10 * a + digit_val c) 0 ds"

fun show_nat :: "nat \<Rightarrow> string" where
  "show_nat n = (if n < 10 then [digit_char n] else show_nat (n div 10) @ [digit_char (n mod 10)])"

declare show_nat.simps [simp del]


section \<open>JavaScript numbers and \<open>parseFloat\<close>\<close>

text \<open>
  A JavaScript number is an IEEE 754 binary64 value. The finite ones are carried by the
  rational they denote; the sign of zero is not kept (the store's increment does not
  tell \<open>-0\<close> from \<open>0\<close>).
\<close>

datatype number = NaN | PosInfinity | NegInfinity | Finite rat

text \<open>Unary minus (\<open>-amount\<close> in \<open>removeEntry\<close>).\<close>

fun negate :: "number \<Rightarrow> number" where
  "negate NaN = NaN"
| "negate PosInfinity = NegInfinity"
| "negate NegInfinity = PosInfinity"
| "negate (Finite x) = Finite (- x)"

definition pow2 :: "int \<Rightarrow> rat" where
  "pow2 e = (if 0 \<le> e then 2 ^ nat e else 1 / 2 ^ nat (- e))"

definition pow10 :: "int \<Rightarrow> rat" where
  "pow10 e = (if 0 \<le> e then 10 ^ nat e else 1 / 10 ^ nat (- e))"

fun bit_length :: "nat \<Rightarrow> nat" where
  "bit_length n = (if n = 0 then 0 else Suc (bit_length (n div 2)))"

declare bit_length.simps [simp del]

text \<open>For \<open>a > 0\<close>, the integer \<open>k\<close> with \<open>2^k \<le> a < 2^(k+1)\<close>.\<close>

definition floor_log2 :: "rat \<Rightarrow> int" where
  "floor_log2 a =
     (let (p, q) = quotient_of a;
          k = int (bit_length (nat p)) - int (bit_length (nat q))
      in if pow2 k \<le> a then k else k - 1)"

definition round_half_even :: "rat \<Rightarrow> int" where
  "round_half_even x =
     (let f = \<lfloor>x\<rfloor>; d = x - of_int f
      in if d < 1 / 2 then f else if 1 / 2 < d then f + 1
         else if even f then f else f + 1)"

text \<open>
  The number nearest to a rational, ties to even: 53 significant bits, exponents down
  to the subnormal range. The rounded significand \<open>m\<close> is at most \<open>2^53\<close>, so
  the result exceeds the largest finite number \<open>(2^53 - 1) * 2^971\<close> exactly when
  the exponent is above 971, or is 971 with \<open>m = 2^53\<close>; then it is an infinity.
\<close>

definition to_binary64 :: "rat \<Rightarrow> number" where
  "to_binary64 x =
     (if x = 0 then Finite 0
      else let a = \<bar>x\<bar>;
               e = max (floor_log2 a - 52) (- 1074);
               m = round_half_even (a / pow2 e)
           in if 971 < e \<or> (e = 971 \<and> m = 2 ^ 53)
              then (if 0 < x then PosInfinity else NegInfinity)
              else Finite (if 0 < x then of_int m * pow2 e else - (of_int m * pow2 e)))"

definition is_whitespace :: "char \<Rightarrow> bool" where
  "is_whitespace c = ((of_char c :: nat) \<in> {9, 10, 11, 12, 13, 32, 160})"

definition scan_sign :: "string \<Rightarrow> bool \<times> string" where
  "scan_sign s =
     (case s of
        [] \<Rightarrow> (False, [])
      | c # r \<Rightarrow> if c = CHR ''-'' then (True, r)
                 else if c = CHR ''+'' then (False, r) else (False, s))"

text \<open>An exponent part is read only when a digit follows the \<open>e\<close> and its sign.\<close>

definition scan_exponent :: "string \<Rightarrow> int \<times> string" where
  "scan_exponent s =
     (case s of
        [] \<Rightarrow> (0, s)
      | c # r \<Rightarrow>
          if c = CHR ''e'' \<or> c = CHR ''E'' then
            (let (neg, r') = scan_sign r; ds = takeWhile is_digit r'
             in if ds = [] then (0, s)
                else (if neg then - int (digits_val ds) else int (digits_val ds),
                      dropWhile is_digit r'))
          else (0, s))"

text \<open>
  The longest prefix that is an unsigned decimal literal (digits, an optional fraction,
  an optional exponent; at least one digit), with its exact value and the rest.
\<close>

definition scan_decimal :: "string \<Rightarrow> (rat \<times> string) option" where
  "scan_decimal s =
     (let ip = takeWhile is_digit s; r1 = dropWhile is_digit s;
          (fp, r2) = (case r1 of
                        [] \<Rightarrow> ([], r1)
                      | c # r \<Rightarrow> if c = CHR ''.''
                                 then (takeWhile is_digit r, dropWhile is_digit r)
                                 else ([], r1))
      in if ip = [] \<and> fp = [] then None
         else let (ex, r3) = scan_exponent r2
              in Some (of_nat (digits_val (ip @ fp)) * pow10 (ex - int (length fp)), r3))"

text \<open>
  \<open>parseFloat\<close>: leading white space is dropped, the longest prefix that is a signed
  decimal literal (or \<open>Infinity\<close>) is read and rounded to a number; \<open>NaN\<close> when
  there is none.
\<close>

definition parseFloat :: "string \<Rightarrow> number" where
  "parseFloat s =
     (let t = dropWhile is_whitespace s; (neg, u) = scan_sign t
      in if take 8 u = ''Infinity'' then (if neg then NegInfinity else PosInfinity)
         else case scan_decimal u of
                None \<Rightarrow> NaN
              | Some (mv, rest) \<Rightarrow>
                  (let n = to_binary64 mv in if neg then negate n else n))"

section \<open>Serialised entries\<close>

text \<open>
  The interface \<open>LedgerEntry\<close>. Its fields \<open>id\<close>, \<open>context\<close>, \<open>currency\<close> and
  \<open>amount\<close> carry the prefix \<open>entry_\<close> here, since \<open>id\<close> and \<open>context\<close> are taken.
\<close>

record LedgerEntry =
  entry_id :: string
  entry_context :: string
  entry_currency :: string
  entry_amount :: string

text \<open>
  \<open>JSON.stringify\<close> on a \<open>LedgerEntry\<close>: an object with the four members, each a
  quoted string, written in the order of the interface (an object built in another order
  is written in that order; the properties below compare parsed entries, not texts). In
  a quoted string the double quote, the backslash and the control characters are escaped;
  the five control characters with a short escape use it, the others are written as a
  backslash, \<open>u00\<close> and two lower-case hexadecimal digits.
\<close>

definition hex_char :: "nat \<Rightarrow> char" where
  "hex_char n = (if n < 10 then char_of (48 + n) else char_of (87 + n))"

definition hex_val :: "char \<Rightarrow> nat option" where
  "hex_val c =
     (let n = (of_char c :: nat)
      in if 48 \<le> n \<and> n \<le> 57 then Some (n - 48)
         else if 97 \<le> n \<and> n \<le> 102 then Some (n - 87)
         else if 65 \<le> n \<and> n \<le> 70 then Some (n - 55)
         else None)"

definition escape_char :: "char \<Rightarrow> string" where
  "escape_char c =
     (let n = (of_char c :: nat)
      in if c = dquote then [backslash, dquote]
         else if c = backslash then [backslash, backslash]
         else if n = 8 then [backslash, CHR ''b'']
         else if n = 9 then [backslash, CHR ''t'']
         else if n = 10 then [backslash, CHR ''n'']
         else if n = 12 then [backslash, CHR ''f'']
         else if n = 13 then [backslash, CHR ''r'']
         else if n < 32 then [backslash, CHR ''u'', CHR ''0'', CHR ''0'',
                               hex_char (n div 16), hex_char (n mod 16)]
         else [c])"

definition quote_json :: "string \<Rightarrow> string" where
  "quote_json s = dquote # concat (map escape_char s) @ [dquote]"

definition JSON_stringify :: "LedgerEntry \<Rightarrow> string" where
  "JSON_stringify e =
     ''{'' @ quote_json ''id'' @ '':'' @ quote_json (entry_id e) @
     '','' @ quote_json ''context'' @ '':'' @ quote_json (entry_context e) @
     '','' @ quote_json ''currency'' @ '':'' @ quote_json (entry_currency e) @
     '','' @ quote_json ''amount'' @ '':'' @ quote_json (entry_amount e) @ ''}''"

text \<open>
  \<open>JSON.parse\<close>, on the texts the ledger stores: an object whose four members are
  strings, in the order above and without white space. Any other text is reported as a
  syntax error (\<open>None\<close>). A string literal ends at the first unescaped double quote;
  every JSON escape is read; a raw control character is an error, and so is a
  four-digit hexadecimal escape of a code unit above 255, which a \<open>char\<close> cannot hold.
\<close>

definition unescape :: "char \<Rightarrow> char option" where
  "unescape c =
     (if c = dquote then Some dquote
      else if c = backslash then Some backslash
      else if c = CHR ''/'' then Some CHR ''/''
      else if c = CHR ''b'' then Some (char_of (8 :: nat))
      else if c = CHR ''t'' then Some (char_of (9 :: nat))
      else if c = CHR ''n'' then Some (char_of (10 :: nat))
      else if c = CHR ''f'' then Some (char_of (12 :: nat))
      else if c = CHR ''r'' then Some (char_of (13 :: nat))
      else None)"

definition hex4 :: "char \<Rightarrow> char \<Rightarrow> char \<Rightarrow> char \<Rightarrow> char option" where
  "hex4 a b c d =
     (case (hex_val a, hex_val b, hex_val c, hex_val d) of
        (Some x, Some y, Some z, Some w) \<Rightarrow>
          (let n = ((x * 16 + y) * 16 + z) * 16 + w
           in if n < 256 then Some (char_of n) else None)
      | _ \<Rightarrow> None)"

text \<open>The characters of a string literal after its opening quote, and what follows it.\<close>

fun parse_chars :: "string \<Rightarrow> (string \<times> string) option" where
  "parse_chars [] = None"
| "parse_chars (c # r) =
     (if c = dquote then Some ([], r)
      else if c = backslash then
        (case r of
           [] \<Rightarrow> None
         | e # r' \<Rightarrow>
             if e = CHR ''u'' then
               (case r' of
                  a # b # c' # d # r'' \<Rightarrow>
                    (case hex4 a b c' d of
                       None \<Rightarrow> None
                     | Some x \<Rightarrow>
                         (case parse_chars r'' of
                            None \<Rightarrow> None
                          | Some (s, rest) \<Rightarrow> Some (x # s, rest)))
                | _ \<Rightarrow> None)
             else
               (case unescape e of
                  None \<Rightarrow> None
                | Some x \<Rightarrow>
                    (case parse_chars r' of
                       None \<Rightarrow> None
                     | Some (s, rest) \<Rightarrow> Some (x # s, rest))))
      else if (of_char c :: nat) < 32 then None
      else (case parse_chars r of
              None \<Rightarrow> None
            | Some (s, rest) \<Rightarrow> Some (c # s, rest)))"

definition parse_string :: "string \<Rightarrow> (string \<times> string) option" where
  "parse_string s = (case s of [] \<Rightarrow> None | c # r \<Rightarrow> if c = dquote then parse_chars r else None)"

definition expect :: "string \<Rightarrow> string \<Rightarrow> string option" where
  "expect p s = (if take (length p) s = p then Some (drop (length p) s) else None)"

definition parse_member :: "string \<Rightarrow> string \<Rightarrow> (string \<times> string) option" where
  "parse_member name s = Option.bind (expect (quote_json name @ '':'') s) parse_string"

definition JSON_parse :: "string \<Rightarrow> LedgerEntry option" where
  "JSON_parse s = do {
     r0 \<leftarrow> expect ''{'' s;
     (i, r1) \<leftarrow> parse_member ''id'' r0;
     r2 \<leftarrow> expect '','' r1;
     (c, r3) \<leftarrow> parse_member ''context'' r2;
     r4 \<leftarrow> expect '','' r3;
     (cu, r5) \<leftarrow> parse_member ''currency'' r4;
     r6 \<leftarrow> expect '','' r5;
     (a, r7) \<leftarrow> parse_member ''amount'' r6;
     if r7 = ''}''
     then Some \<lparr>entry_id = i, entry_context = c, entry_currency = cu, entry_amount = a\<rparr>
     else None
   }"

section \<open>The key-value store\<close>

text \<open>
  The constructor takes one of two adapters (\<open>createRedisAdapter\<close>): the one for
  ioredis when the client it is given has a \<open>status\<close> string, the one for node-redis
  otherwise. Both forward each call to the client's command of the same name. The two
  clients differ in two places the ledger reaches: what \<open>exec\<close> does when a queued
  command was answered by an error reply, and whether a count of 0 is sent with a scan.
\<close>

datatype client = NodeRedis | IORedis

text \<open>
  The store is the keyspace the commands act on: a key holds a string or a hash of
  fields; a hash keeps its fields in insertion order and disappears with its last field;
  a command on a key of the other kind is answered by an error reply. An error reply to
  a single command rejects the call with it (\<open>StoreError\<close>). Transport failures are
  not modelled.
\<close>

datatype rvalue = RString string | RHash "(string \<times> string) list"

type_synonym store = "string \<Rightarrow> rvalue option"

text \<open>
  What a call can reject with: the two errors \<open>addEntry\<close> throws, an error reply of
  the store, the error node-redis throws from \<open>exec\<close> when a queued command was
  answered by an error reply, and the error \<open>JSON.parse\<close> throws.
\<close>

datatype error = DuplicateEntry | LimitExceeded | StoreError | MultiErrorReply | SyntaxError

definition hExists :: "store \<Rightarrow> string \<Rightarrow> string \<Rightarrow> error + bool" where
  "hExists s key field =
     (case s key of
        None \<Rightarrow> Inr False
      | Some (RHash h) \<Rightarrow> Inr (map_of h field \<noteq> None)
      | Some (RString v) \<Rightarrow> Inl StoreError)"

definition hLen :: "store \<Rightarrow> string \<Rightarrow> error + nat" where
  "hLen s key =
     (case s key of
        None \<Rightarrow> Inr 0
      | Some (RHash h) \<Rightarrow> Inr (length h)
      | Some (RString v) \<Rightarrow> Inl StoreError)"

definition hGet :: "store \<Rightarrow> string \<Rightarrow> string \<Rightarrow> error + string option" where
  "hGet s key field =
     (case s key of
        None \<Rightarrow> Inr None
      | Some (RHash h) \<Rightarrow> Inr (map_of h field)
      | Some (RString v) \<Rightarrow> Inl StoreError)"

definition hGetAll :: "store \<Rightarrow> string \<Rightarrow> error + (string \<times> string) list" where
  "hGetAll s key =
     (case s key of
        None \<Rightarrow> Inr []
      | Some (RHash h) \<Rightarrow> Inr h
      | Some (RString v) \<Rightarrow> Inl StoreError)"

definition get :: "store \<Rightarrow> string \<Rightarrow> error + string option" where
  "get s key =
     (case s key of
        None \<Rightarrow> Inr None
      | Some (RString v) \<Rightarrow> Inr (Some v)
      | Some (RHash h) \<Rightarrow> Inl StoreError)"

text \<open>Deleting keys: absent keys are skipped, nothing fails.\<close>

definition del :: "string list \<Rightarrow> store \<Rightarrow> store" where
  "del keys s = (\<lambda>k. if k \<in> set keys then None else s k)"




text \<open>
  Modelled from the spec: the store's float increment (\<open>incrementFloat\<close> and
  \<open>hashIncrementFloat\<close>, sections 4.1 and 4.2): the value held, or zero when there
  is none, plus the delta received, taken as an exact decimal operation at the store
  boundary. The result is written in plain decimal notation with at most 17 digits
  after the point and no trailing zeros. The delta is the number the adapter is called
  with, at its exact value; the rounding a real store adds inside, and the digits a
  client drops when it writes the number out, are not modelled. On the integers of the
  examples below all of these agree.
\<close>

definition pad_left :: "nat \<Rightarrow> string \<Rightarrow> string" where
  "pad_left n s = replicate (n - length s) CHR ''0'' @ s"

definition format_float :: "rat \<Rightarrow> string" where
  "format_float x =
     (let scaled = nat (round_half_even (\<bar>x\<bar> * 10 ^ 17));
          ip = scaled div 10 ^ 17;
          fp = pad_left 17 (show_nat (scaled mod 10 ^ 17));
          frac = rev (dropWhile (\<lambda>c. c = CHR ''0'') (rev fp));
          body = show_nat ip @ (if frac = [] then [] else CHR ''.'' # frac)
      in if x < 0 \<and> scaled \<noteq> 0 then CHR ''-'' # body else body)"

definition parse_float_value :: "string \<Rightarrow> rat option" where
  "parse_float_value s =
     (let (neg, u) = scan_sign s
      in case scan_decimal u of
           None \<Rightarrow> None
         | Some (v, rest) \<Rightarrow> if rest = [] then Some (if neg then - v else v) else None)"

text \<open>
  The new value of an increment, or \<open>None\<close> when the store answers it with an error
  reply: the store does so when the delta is not a finite number (both clients send
  \<open>NaN\<close> and the infinities by their names), and when the value held is not a decimal
  number.
\<close>

definition incr_value :: "string option \<Rightarrow> number \<Rightarrow> string option" where
  "incr_value old delta =
     (case delta of
        Finite d \<Rightarrow>
          (case old of
             None \<Rightarrow> Some (format_float d)
           | Some v \<Rightarrow> map_option (\<lambda>x. format_float (x + d)) (parse_float_value v))
      | _ \<Rightarrow> None)"

text \<open>
  The mutations a grouped write (\<open>multi\<close> ... \<open>exec\<close>) can queue, as the
  \<open>MultiAdapter\<close> interface lists them. Each is given as what it does to the store;
  a mutation answered by an error reply leaves the store as it was.
\<close>

datatype command =
    HSet string string string
  | HDel string string
  | IncrByFloat string number
  | HIncrByFloat string string number

definition hSet :: "string \<Rightarrow> string \<Rightarrow> string \<Rightarrow> store \<Rightarrow> store" where
  "hSet key field v s =
     (case s key of
        None \<Rightarrow> s(key \<mapsto> RHash [(field, v)])
      | Some (RHash h) \<Rightarrow> s(key \<mapsto> RHash (AList.update field v h))
      | Some (RString x) \<Rightarrow> s)"

definition hDel :: "string \<Rightarrow> string \<Rightarrow> store \<Rightarrow> store" where
  "hDel key field s =
     (case s key of
        None \<Rightarrow> s
      | Some (RHash h) \<Rightarrow>
          (let h' = AList.delete field h
           in if h' = [] then s(key := None) else s(key \<mapsto> RHash h'))
      | Some (RString x) \<Rightarrow> s)"

definition incrByFloat :: "string \<Rightarrow> number \<Rightarrow> store \<Rightarrow> store" where
  "incrByFloat key delta s =
     (case s key of
        None \<Rightarrow> (case incr_value None delta of
                   None \<Rightarrow> s | Some v \<Rightarrow> s(key \<mapsto> RString v))
      | Some (RString x) \<Rightarrow> (case incr_value (Some x) delta of
                               None \<Rightarrow> s | Some v \<Rightarrow> s(key \<mapsto> RString v))
      | Some (RHash h) \<Rightarrow> s)"

definition hIncrByFloat :: "string \<Rightarrow> string \<Rightarrow> number \<Rightarrow> store \<Rightarrow> store" where
  "hIncrByFloat key field delta s =
     (case s key of
        None \<Rightarrow> (case incr_value None delta of
                   None \<Rightarrow> s | Some v \<Rightarrow> s(key \<mapsto> RHash [(field, v)]))
      | Some (RHash h) \<Rightarrow> (case incr_value (map_of h field) delta of
                             None \<Rightarrow> s
                           | Some v \<Rightarrow> s(key \<mapsto> RHash (AList.update field v h)))
      | Some (RString x) \<Rightarrow> s)"

fun apply_command :: "command \<Rightarrow> store \<Rightarrow> store" where
  "apply_command (HSet key field v) s = hSet key field v s"
| "apply_command (HDel key field) s = hDel key field s"
| "apply_command (IncrByFloat key delta) s = incrByFloat key delta s"
| "apply_command (HIncrByFloat key field delta) s = hIncrByFloat key field delta s"

text \<open>
  When a queued mutation is answered by an error reply: on a key of the other kind, and
  for an increment also when the value held is not a number or the delta is not finite.
\<close>

fun refused :: "command \<Rightarrow> store \<Rightarrow> bool" where
  "refused (HSet key field v) s = (case s key of Some (RString x) \<Rightarrow> True | _ \<Rightarrow> False)"
| "refused (HDel key field) s = (case s key of Some (RString x) \<Rightarrow> True | _ \<Rightarrow> False)"
| "refused (IncrByFloat key delta) s =
     (case s key of
        None \<Rightarrow> incr_value None delta = None
      | Some (RString x) \<Rightarrow> incr_value (Some x) delta = None
      | Some (RHash h) \<Rightarrow> True)"
| "refused (HIncrByFloat key field delta) s =
     (case s key of
        None \<Rightarrow> incr_value None delta = None
      | Some (RHash h) \<Rightarrow> incr_value (map_of h field) delta = None
      | Some (RString x) \<Rightarrow> True)"

declare refused.simps [simp del]

text \<open>
  The group is applied in order as one step, and a refused mutation does not keep the
  others from being applied. \<open>run_group\<close> returns whether some mutation was refused,
  and the store afterwards.
\<close>

fun run_group :: "command list \<Rightarrow> store \<Rightarrow> bool \<times> store" where
  "run_group [] s = (False, s)"
| "run_group (cmd # cmds) s =
     (let (r, s') = run_group cmds (apply_command cmd s)
      in (refused cmd s \<or> r, s'))"

text \<open>
  \<open>exec\<close> of node-redis throws when one of the replies is an error reply; \<open>exec\<close>
  of ioredis resolves with the replies, error replies among them. The ledger awaits
  \<open>exec\<close> and does not look at what it resolves with.
\<close>

definition exec :: "client \<Rightarrow> command list \<Rightarrow> store \<Rightarrow> (error + unit) \<times> store" where
  "exec cl cmds s =
     (let (r, s') = run_group cmds s
      in (if cl = NodeRedis \<and> r then Inl MultiErrorReply else Inr (), s'))"

section \<open>The ledger\<close>

record config =
  maxEntriesPerKey :: int
  keyPrefix :: string

definition DEFAULT_CONFIG :: config where
  "DEFAULT_CONFIG = \<lparr>maxEntriesPerKey = 1000000, keyPrefix = ''ledger''\<rparr>"

definition getLedgerKey :: "config \<Rightarrow> string \<Rightarrow> string \<Rightarrow> string" where
  "getLedgerKey cfg accountId currency = keyPrefix cfg @ '':'' @ accountId @ '':'' @ currency"

definition getTotalKey :: "config \<Rightarrow> string \<Rightarrow> string \<Rightarrow> string" where
  "getTotalKey cfg accountId currency =
     keyPrefix cfg @ '':'' @ accountId @ '':'' @ currency @ '':total''"

definition getContextKey :: "config \<Rightarrow> string \<Rightarrow> string \<Rightarrow> string" where
  "getContextKey cfg accountId currency =
     keyPrefix cfg @ '':'' @ accountId @ '':'' @ currency @ '':ctx''"

text \<open>The grouped writes of \<open>addEntry\<close> and \<open>removeEntry\<close>.\<close>

definition add_group :: "config \<Rightarrow> string \<Rightarrow> string \<Rightarrow> LedgerEntry \<Rightarrow> command list" where
  "add_group cfg accountId currency entry =
     [HSet (getLedgerKey cfg accountId currency) (entry_id entry) (JSON_stringify entry),
      IncrByFloat (getTotalKey cfg accountId currency) (parseFloat (entry_amount entry)),
      HIncrByFloat (getContextKey cfg accountId currency) (entry_context entry)
        (parseFloat (entry_amount entry))]"

definition remove_group :: "config \<Rightarrow> string \<Rightarrow> string \<Rightarrow> string \<Rightarrow> LedgerEntry \<Rightarrow> command list" where
  "remove_group cfg accountId currency entryId entry =
     (let amount = parseFloat (entry_amount entry)
      in [HDel (getLedgerKey cfg accountId currency) entryId,
          IncrByFloat (getTotalKey cfg accountId currency) (negate amount),
          HIncrByFloat (getContextKey cfg accountId currency) (entry_context entry)
            (negate amount)])"

text \<open>
  The mutating operations return what the call resolves or rejects with, and the store
  afterwards. A call rejected by one of its checks has issued no write; a call rejected
  by \<open>exec\<close> has issued its grouped write. The operations that reach \<open>exec\<close> or the
  scan take the client as their first argument.
\<close>

definition addEntry ::
  "client \<Rightarrow> config \<Rightarrow> string \<Rightarrow> string \<Rightarrow> LedgerEntry \<Rightarrow> store \<Rightarrow> (error + unit) \<times> store" where
  "addEntry cl cfg accountId currency entry s =
     (let key = getLedgerKey cfg accountId currency
      in case hExists s key (entry_id entry) of
           Inl err \<Rightarrow> (Inl err, s)
         | Inr exists \<Rightarrow>
             if exists then (Inl DuplicateEntry, s)
             else (case hLen s key of
                     Inl err \<Rightarrow> (Inl err, s)
                   | Inr count \<Rightarrow>
                       if int count \<ge> maxEntriesPerKey cfg then (Inl LimitExceeded, s)
                       else exec cl (add_group cfg accountId currency entry) s))"

text \<open>
  \<open>removeEntry\<close> returns \<open>false\<close> when the field is absent or holds the empty string
  (\<open>!raw\<close>); otherwise the stored text is parsed and the group is applied, and the
  call returns \<open>true\<close> once \<open>exec\<close> has resolved.
\<close>

definition removeEntry ::
  "client \<Rightarrow> config \<Rightarrow> string \<Rightarrow> string \<Rightarrow> string \<Rightarrow> store \<Rightarrow> (error + bool) \<times> store" where
  "removeEntry cl cfg accountId currency entryId s =
     (case hGet s (getLedgerKey cfg accountId currency) entryId of
        Inl err \<Rightarrow> (Inl err, s)
      | Inr None \<Rightarrow> (Inr False, s)
      | Inr (Some raw) \<Rightarrow>
          if raw = [] then (Inr False, s)
          else (case JSON_parse raw of
                  None \<Rightarrow> (Inl SyntaxError, s)
                | Some entry \<Rightarrow>
                    (case exec cl (remove_group cfg accountId currency entryId entry) s of
                       (Inl err, s') \<Rightarrow> (Inl err, s')
                     | (Inr u, s') \<Rightarrow> (Inr True, s'))))"

definition getEntry ::
  "config \<Rightarrow> string \<Rightarrow> string \<Rightarrow> string \<Rightarrow> store \<Rightarrow> error + LedgerEntry option" where
  "getEntry cfg accountId currency entryId s =
     (case hGet s (getLedgerKey cfg accountId currency) entryId of
        Inl err \<Rightarrow> Inl err
      | Inr None \<Rightarrow> Inr None
      | Inr (Some raw) \<Rightarrow>
          if raw = [] then Inr None
          else (case JSON_parse raw of
                  None \<Rightarrow> Inl SyntaxError
                | Some entry \<Rightarrow> Inr (Some entry)))"

definition getSum :: "config \<Rightarrow> string \<Rightarrow> string \<Rightarrow> store \<Rightarrow> error + string" where
  "getSum cfg accountId currency s =
     (case get s (getTotalKey cfg accountId currency) of
        Inl err \<Rightarrow> Inl err
      | Inr None \<Rightarrow> Inr ''0''
      | Inr (Some v) \<Rightarrow> Inr v)"

text \<open>
  The interface \<open>BalanceResult\<close>; its field \<open>total\<close> is \<open>total_str\<close> here.
  \<open>getBalance\<close> issues its three reads together and rejects when one of them does;
  with no writer in between, the order in which they are answered does not matter.
\<close>

record BalanceResult =
  total_str :: string
  byContext :: "(string \<times> string) list"
  entryCount :: nat

definition getBalance :: "config \<Rightarrow> string \<Rightarrow> string \<Rightarrow> store \<Rightarrow> error + BalanceResult" where
  "getBalance cfg accountId currency s =
     (case get s (getTotalKey cfg accountId currency) of
        Inl err \<Rightarrow> Inl err
      | Inr t \<Rightarrow>
          (case hLen s (getLedgerKey cfg accountId currency) of
             Inl err \<Rightarrow> Inl err
           | Inr n \<Rightarrow>
               (case hGetAll s (getContextKey cfg accountId currency) of
                  Inl err \<Rightarrow> Inl err
                | Inr ctxs \<Rightarrow>
                    Inr \<lparr>total_str = (case t of None \<Rightarrow> ''0'' | Some v \<Rightarrow> v),
                         byContext = ctxs, entryCount = n\<rparr>)))"




definition clearLedger :: "config \<Rightarrow> string \<Rightarrow> string \<Rightarrow> store \<Rightarrow> (error + unit) \<times> store" where
  "clearLedger cfg accountId currency s =
     (Inr (), del [getLedgerKey cfg accountId currency, getTotalKey cfg accountId currency,
                   getContextKey cfg accountId currency] s)"


section \<open>Concurrent calls of \<open>addEntry\<close>\<close>

text \<open>
  A call of \<open>addEntry\<close> gives way at each \<open>await\<close>: after the existence check,
  after the count, and after the grouped write. Between two of them it runs one store
  operation against the shared store. All calls go through the one client of the ledger.
\<close>

datatype call_state = Start | Checked | Counted | Resolved | Rejected error

fun step_call ::
  "client \<Rightarrow> config \<Rightarrow> string \<Rightarrow> string \<Rightarrow> LedgerEntry \<Rightarrow> call_state \<Rightarrow> store
     \<Rightarrow> call_state \<times> store" where
  "step_call cl cfg accountId currency entry Start s =
     (case hExists s (getLedgerKey cfg accountId currency) (entry_id entry) of
        Inl err \<Rightarrow> (Rejected err, s)
      | Inr exists \<Rightarrow> if exists then (Rejected DuplicateEntry, s) else (Checked, s))"
| "step_call cl cfg accountId currency entry Checked s =
     (case hLen s (getLedgerKey cfg accountId currency) of
        Inl err \<Rightarrow> (Rejected err, s)
      | Inr count \<Rightarrow>
          if int count \<ge> maxEntriesPerKey cfg then (Rejected LimitExceeded, s)
          else (Counted, s))"
| "step_call cl cfg accountId currency entry Counted s =
     (case exec cl (add_group cfg accountId currency entry) s of
        (Inl err, s') \<Rightarrow> (Rejected err, s')
      | (Inr u, s') \<Rightarrow> (Resolved, s'))"
| "step_call cl cfg accountId currency entry Resolved s = (Resolved, s)"
| "step_call cl cfg accountId currency entry (Rejected err) s = (Rejected err, s)"

text \<open>
  Calls on one (account, currency) pair under a schedule: each element of the schedule
  names the call that takes its next step.
\<close>

fun run_schedule ::
  "client \<Rightarrow> config \<Rightarrow> string \<Rightarrow> string \<Rightarrow> nat list
     \<Rightarrow> (LedgerEntry \<times> call_state) list \<times> store
     \<Rightarrow> (LedgerEntry \<times> call_state) list \<times> store" where
  "run_schedule cl cfg accountId currency [] sys = sys"
| "run_schedule cl cfg accountId currency (i # sched) (calls, s) =
     (if i < length calls then
        (let (entry, st) = calls ! i;
             (st', s') = step_call cl cfg accountId currency entry st s
         in run_schedule cl cfg accountId currency sched (calls[i := (entry, st')], s'))
      else run_schedule cl cfg accountId currency sched (calls, s))"

section \<open>Construction and sample data\<close>

text \<open>The constructor: a missing option takes its default.\<close>

definition make_config :: "int option \<Rightarrow> string option \<Rightarrow> config" where
  "make_config maxEntries prefix =
     \<lparr>maxEntriesPerKey = (case maxEntries of None \<Rightarrow> maxEntriesPerKey DEFAULT_CONFIG | Some m \<Rightarrow> m),
      keyPrefix = (case prefix of None \<Rightarrow> keyPrefix DEFAULT_CONFIG | Some p \<Rightarrow> p)\<rparr>"

text \<open>
  The entries of the specification's concrete scenario, and the store after the first.
  The sample stores are written through node-redis; the other client leaves the same
  stores (\<open>addEntry_store_client\<close> below).
\<close>

definition entry_t1 :: LedgerEntry where
  "entry_t1 = \<lparr>entry_id = ''t1'', entry_context = ''deposit'', entry_currency = ''usd'',
                entry_amount = ''100.00''\<rparr>"

definition entry_t2 :: LedgerEntry where
  "entry_t2 = \<lparr>entry_id = ''t2'', entry_context = ''withdrawal'', entry_currency = ''usd'',
                entry_amount = ''-30.00''\<rparr>"

definition store_t1 :: store where
  "store_t1 = snd (addEntry NodeRedis DEFAULT_CONFIG ''u1'' ''usd'' entry_t1 Map.empty)"

text \<open>
  The three values the store holds for a pair: the entries hash, the total and the
  per-context sums. Every read of the ledger is a function of them.
\<close>

definition pair_view ::
  "config \<Rightarrow> string \<Rightarrow> string \<Rightarrow> store \<Rightarrow> rvalue option \<times> rvalue option \<times> rvalue option" where
  "pair_view cfg accountId currency s =
     (s (getLedgerKey cfg accountId currency), s (getTotalKey cfg accountId currency),
      s (getContextKey cfg accountId currency))"

text \<open>An entry whose amount is not a number.\<close>

definition entry_bad_amount :: LedgerEntry where
  "entry_bad_amount = \<lparr>entry_id = ''t3'', entry_context = ''deposit'', entry_currency = ''usd'',
                        entry_amount = ''abc''\<rparr>"

text \<open>The store after both entries of the scenario.\<close>

definition store_t12 :: store where
  "store_t12 = snd (addEntry NodeRedis DEFAULT_CONFIG ''u1'' ''usd'' entry_t2 store_t1)"

text \<open>An entry whose amount is the integer \<open>2^53 + 1\<close>.\<close>

definition entry_big :: LedgerEntry where
  "entry_big = \<lparr>entry_id = ''t1'', entry_context = ''deposit'', entry_currency = ''usd'',
                 entry_amount = ''9007199254740993''\<rparr>"

section \<open>Decimal numerals and exactly represented integers\<close>

text \<open>
  The decimal numeral of a natural number consists of digits only and reads back as that
  number.
\<close>

lemma digit_val_digit_char: "n < 10 \<Longrightarrow> digit_val (digit_char n) = n"
  by (simp add: digit_val_def digit_char_def of_char_of [where ?'a = nat])

lemma is_digit_digit_char: "n < 10 \<Longrightarrow> is_digit (digit_char n)"
  by (simp add: is_digit_def digit_char_def of_char_of [where ?'a = nat])

lemma digits_val_snoc: "digits_val (ds @ [d]) = 10 * digits_val ds + digit_val d"
  by (simp add: digits_val_def)

lemma show_nat_digits: "list_all is_digit (show_nat n) \<and> show_nat n \<noteq> []"
proof (induction n rule: show_nat.induct)
  case (1 n)
  show ?case
  proof (cases "n < 10")
    case True
    then show ?thesis by (subst (1 2) show_nat.simps) (simp add: is_digit_digit_char)
  next
    case False
    have "n mod 10 < 10" by simp
    then show ?thesis
      using False 1 by (subst (1 2) show_nat.simps) (simp add: is_digit_digit_char)
  qed
qed

lemma digits_val_show_nat: "digits_val (show_nat n) = n"
proof (induction n rule: show_nat.induct)
  case (1 n)
  show ?case
  proof (cases "n < 10")
    case True
    then show ?thesis
      by (subst show_nat.simps) (simp add: digits_val_def digit_val_digit_char)
  next
    case False
    have m: "n mod 10 < 10" by simp
    have "digits_val (show_nat n) = 10 * digits_val (show_nat (n div 10)) + digit_val (digit_char (n mod 10))"
      using False by (subst show_nat.simps) (simp add: digits_val_snoc)
    then show ?thesis
      using False 1 by (simp add: digit_val_digit_char [OF m])
  qed
qed




text \<open>
  The exponent chosen for a positive rational \<open>a\<close> is the integer \<open>k\<close> with
  \<open>2\<^sup>k \<le> a < 2\<^sup>k\<^sup>+\<^sup>1\<close>, so an integer below \<open>2\<^sup>5\<^sup>3\<close> in absolute value is
  a binary64 value and is not rounded.
\<close>

lemma pow2_powi: "pow2 e = 2 powi e"
  by (simp add: pow2_def power_int_def inverse_eq_divide power_one_over)

lemma pow2_pos: "0 < pow2 e"
  by (simp add: pow2_powi)

lemma pow2_add: "pow2 (i + j) = pow2 i * pow2 j"
  by (simp add: pow2_powi power_int_add)

lemma pow2_less: "pow2 i < pow2 j \<longleftrightarrow> i < j"
proof
  assume "pow2 i < pow2 j"
  show "i < j"
  proof (rule ccontr)
    assume "\<not> i < j"
    then have "pow2 j \<le> pow2 i"
      unfolding pow2_powi by (intro power_int_increasing) auto
    with \<open>pow2 i < pow2 j\<close> show False by simp
  qed
next
  assume "i < j"
  then show "pow2 i < pow2 j"
    unfolding pow2_powi by (intro power_int_strict_increasing) auto
qed

lemma pow2_le: "pow2 i \<le> pow2 j \<longleftrightarrow> i \<le> j"
  using pow2_less [of j i] by (simp add: not_less [symmetric])

lemma pow2_nat: "pow2 (int n) = 2 ^ n"
  by (simp add: pow2_def)

lemma bit_length_bounds:
  "0 < n \<Longrightarrow> 2 ^ (bit_length n - 1) \<le> n \<and> n < 2 ^ bit_length n"
proof (induction n rule: bit_length.induct)
  case (1 n)
  have bl: "bit_length n = Suc (bit_length (n div 2))"
    using 1(2) by (subst bit_length.simps) simp
  show ?case
  proof (cases "n div 2 = 0")
    case True
    then have n: "n = 1" using 1(2) by presburger
    have "bit_length (n div 2) = 0"
      using True by (subst bit_length.simps) simp
    then have "bit_length n = 1" by (simp add: bl)
    then show ?thesis
      using n by simp
  next
    case False
    then have IH: "2 ^ (bit_length (n div 2) - 1) \<le> n div 2" "n div 2 < 2 ^ bit_length (n div 2)"
      using 1 by auto
    have pos: "0 < bit_length (n div 2)"
      using False by (subst bit_length.simps) simp
    have lo: "2 ^ bit_length (n div 2) \<le> n"
    proof -
      have "2 * 2 ^ (bit_length (n div 2) - 1) \<le> 2 * (n div 2)" using IH(1) by simp
      moreover have "2 * 2 ^ (bit_length (n div 2) - 1) = (2::nat) ^ bit_length (n div 2)"
        using pos by (metis Suc_pred' power_Suc)
      ultimately show ?thesis by linarith
    qed
    have hi: "n < 2 * 2 ^ bit_length (n div 2)"
      using IH(2) by linarith
    show ?thesis using lo hi by (simp add: bl)
  qed
qed

lemma bit_length_rat:
  assumes "0 < (p::int)"
  shows "pow2 (int (bit_length (nat p)) - 1) \<le> of_int p \<and> of_int p < pow2 (int (bit_length (nat p)))"
proof -
  let ?b = "bit_length (nat p)"
  have b: "2 ^ (?b - 1) \<le> nat p" "nat p < 2 ^ ?b"
    using bit_length_bounds [of "nat p"] assms by auto
  have pos: "0 < ?b" using assms by (subst bit_length.simps) simp
  have "(of_nat (2 ^ (?b - 1)) :: rat) \<le> of_nat (nat p)"
    using b(1) by (simp only: of_nat_le_iff)
  then have lo: "(2::rat) ^ (?b - 1) \<le> of_int p"
    using assms by simp
  have "(of_nat (nat p) :: rat) < of_nat (2 ^ ?b)"
    using b(2) by (simp only: of_nat_less_iff)
  then have hi: "of_int p < (2::rat) ^ ?b"
    using assms by simp
  have "int ?b - 1 = int (?b - 1)" using pos by linarith
  then have e: "pow2 (int ?b - 1) = 2 ^ (?b - 1)"
    by (simp only: pow2_nat)
  show ?thesis
    using lo hi by (simp only: e pow2_nat simp_thms)
qed

lemma floor_log2_bounds:
  assumes "0 < a"
  shows "pow2 (floor_log2 a) \<le> a \<and> a < pow2 (floor_log2 a + 1)"
proof -
  obtain p q where pq: "quotient_of a = (p, q)" by (cases "quotient_of a")
  have q: "0 < q" using pq by (rule quotient_of_denom_pos)
  have a: "a = of_int p / of_int q" using pq by (rule quotient_of_div)
  have p: "0 < p" using assms q a by (simp add: zero_less_divide_iff)
  let ?bp = "int (bit_length (nat p))" and ?bq = "int (bit_length (nat q))"
  let ?k = "?bp - ?bq"
  note P = bit_length_rat [OF p] and Q = bit_length_rat [OF q]
  have qpos: "(0::rat) < of_int q" using q by simp
  have up: "a < pow2 (?k + 1)"
  proof -
    have "of_int p < pow2 ?bp" using P by simp
    also have "pow2 ?bp = pow2 (?k + 1) * pow2 (?bq - 1)"
      by (simp flip: pow2_add)
    also have "\<dots> \<le> pow2 (?k + 1) * of_int q"
      using Q pow2_pos [of "?k + 1"] by (simp add: mult_left_mono)
    finally show ?thesis using qpos by (simp add: a pos_divide_less_eq)
  qed
  have down: "pow2 (?k - 1) \<le> a"
  proof -
    have "pow2 (?k - 1) * of_int q \<le> pow2 (?k - 1) * pow2 ?bq"
      using Q pow2_pos [of "?k - 1"] by (simp add: mult_left_mono less_imp_le)
    also have "\<dots> = pow2 (?bp - 1)"
      by (simp flip: pow2_add)
    also have "\<dots> \<le> of_int p" using P by simp
    finally show ?thesis using qpos by (simp add: a pos_le_divide_eq)
  qed
  show ?thesis
    using up down by (simp add: floor_log2_def pq Let_def not_le)
qed


lemma round_half_even_of_int: "round_half_even (of_int k) = k"
  by (simp add: round_half_even_def)

lemma pow2_neg: "pow2 (- int j) = 1 / 2 ^ j"
  by (cases j) (simp_all add: pow2_def nat_add_distrib)

lemma to_binary64_of_int:
  assumes "\<bar>n\<bar> < 2 ^ 53"
  shows "to_binary64 (of_int n) = Finite (of_int n)"
proof (cases "n = 0")
  case True
  then show ?thesis by (simp add: to_binary64_def)
next
  case False
  let ?a = "\<bar>of_int n :: rat\<bar>"
  let ?f = "floor_log2 ?a"
  have a0: "0 < ?a" using False by simp
  have a1: "1 \<le> ?a"
  proof -
    have "1 \<le> \<bar>n\<bar>" using False by simp
    then have "(of_int 1 :: rat) \<le> of_int \<bar>n\<bar>" by (simp only: of_int_le_iff)
    then show ?thesis by simp
  qed
  have a2: "?a < pow2 53"
  proof -
    have "(of_int \<bar>n\<bar> :: rat) < of_int (2 ^ 53)" using assms by (simp only: of_int_less_iff)
    then show ?thesis by (simp add: pow2_def)
  qed
  note b = floor_log2_bounds [OF a0]
  have "pow2 0 < pow2 (?f + 1)"
    using a1 b by (simp add: pow2_def)
  then have f0: "0 \<le> ?f" by (simp add: pow2_less)
  have "pow2 ?f < pow2 53" using a2 b by simp
  then have f52: "?f \<le> 52" by (simp add: pow2_less)
  define j where "j = nat (52 - ?f)"
  have e: "max (?f - 52) (- 1074) = - int j"
    using f0 f52 by (simp add: j_def)
  have div: "?a / pow2 (- int j) = of_int (\<bar>n\<bar> * 2 ^ j)"
    by (simp add: pow2_neg)
  have m: "round_half_even (?a / pow2 (- int j)) = \<bar>n\<bar> * 2 ^ j"
    unfolding div by (rule round_half_even_of_int)
  have prod: "of_int (\<bar>n\<bar> * 2 ^ j) * pow2 (- int j) = ?a"
    by (simp add: pow2_neg)
  have small: "\<not> (971 < - int j \<or> (- int j = 971 \<and> \<bar>n\<bar> * 2 ^ j = 2 ^ 53))"
    by simp
  show ?thesis
    using False small
    by (simp only: to_binary64_def Let_def e m prod of_int_eq_0_iff if_False of_int_0_less_iff)
       (auto simp: abs_if)
qed

text \<open>
  Hence \<open>parseFloat\<close> reads the decimal numeral of a natural number below \<open>2\<^sup>5\<^sup>3\<close>
  as exactly that number.
\<close>

lemma scan_decimal_digits:
  assumes "s \<noteq> []" and "list_all is_digit s"
  shows "scan_decimal s = Some (of_nat (digits_val s), [])"
proof -
  have t: "takeWhile is_digit s = s" and d: "dropWhile is_digit s = []"
    using assms(2) by (simp_all add: list_all_iff)
  show ?thesis
    using assms(1) by (simp add: scan_decimal_def t d scan_exponent_def pow10_def)
qed

lemma parseFloat_show_nat:
  assumes "n < 2 ^ 53"
  shows "parseFloat (show_nat n) = Finite (of_nat n)"
proof -
  obtain c cs where s: "show_nat n = c # cs" and c: "is_digit c"
    using show_nat_digits [of n] by (cases "show_nat n") auto
  have ws: "\<not> is_whitespace c"
    using c by (auto simp: is_digit_def is_whitespace_def)
  have sign: "scan_sign (c # cs) = (False, c # cs)"
    using c by (auto simp: scan_sign_def is_digit_def)
  have inf: "c \<noteq> CHR ''I''"
    using c by (auto simp: is_digit_def)
  have dec: "scan_decimal (c # cs) = Some (of_nat n, [])"
    using scan_decimal_digits [of "show_nat n"] show_nat_digits [of n] digits_val_show_nat [of n]
    by (simp add: s)
  have "\<bar>int n\<bar> < 2 ^ 53" using assms by simp
  then have "to_binary64 (of_int (int n)) = Finite (of_int (int n))"
    by (rule to_binary64_of_int)
  then have r: "to_binary64 (of_nat n) = Finite (of_nat n)" by simp
  show ?thesis
    by (simp add: parseFloat_def s ws sign inf dec r)
qed

section \<open>Serialisation round trip\<close>

lemma hex_val_hex_char: "n < 16 \<Longrightarrow> hex_val (hex_char n) = Some n"
  unfolding hex_val_def hex_char_def Let_def
  by (auto simp: of_char_of [where ?'a = nat])

lemma hex4_control:
  assumes "n < 32"
  shows "hex4 CHR ''0'' CHR ''0'' (hex_char (n div 16)) (hex_char (n mod 16)) = Some (char_of n)"
proof -
  have hi: "hex_val (hex_char (n div 16)) = Some (n div 16)"
    using assms by (intro hex_val_hex_char) auto
  have lo: "hex_val (hex_char (n mod 16)) = Some (n mod 16)"
    by (intro hex_val_hex_char) auto
  have z: "hex_val CHR ''0'' = Some 0"
    by (simp add: hex_val_def)
  show ?thesis using assms by (simp add: hex4_def hi lo z)
qed

text \<open>Reading back one escaped character, by the five shapes an escape can take.\<close>

lemma parse_chars_escape:
  assumes "parse_chars r = Some (s, rest)"
  shows "parse_chars (escape_char c @ r) = Some (c # s, rest)"
proof -
  let ?n = "of_char c :: nat"
  consider (dq) "c = dquote" | (bs) "c = backslash"
    | (short) "c \<noteq> dquote" "c \<noteq> backslash" "?n \<in> {8, 9, 10, 12, 13}"
    | (ctl) "c \<noteq> dquote" "c \<noteq> backslash" "?n \<notin> {8, 9, 10, 12, 13}" "?n < 32"
    | (plain) "c \<noteq> dquote" "c \<noteq> backslash" "\<not> ?n < 32"
    by auto
  then show ?thesis
  proof cases
    case dq
    then show ?thesis using assms
      by (simp add: escape_char_def unescape_def dquote_def backslash_def)
  next
    case bs
    then show ?thesis using assms
      by (simp add: escape_char_def unescape_def dquote_def backslash_def)
  next
    case short
    have c: "c = char_of ?n" by simp
    from short(3) have "c \<in> {char_of (8::nat), char_of (9::nat), char_of (10::nat), char_of (12::nat), char_of (13::nat)}"
      by (metis (no_types, lifting) c insert_iff singletonD)
    then show ?thesis using assms short(1,2)
      by (auto simp: escape_char_def unescape_def dquote_def backslash_def)
  next
    case ctl
    have "hex4 CHR ''0'' CHR ''0'' (hex_char (?n div 16)) (hex_char (?n mod 16)) = Some c"
      using hex4_control [OF ctl(4)] by simp
    then show ?thesis using assms ctl
      by (simp add: escape_char_def Let_def dquote_def backslash_def)
  next
    case plain
    then show ?thesis using assms
      by (simp add: escape_char_def Let_def)
  qed
qed

lemma parse_chars_quoted:
  "parse_chars (concat (map escape_char s) @ dquote # rest) = Some (s, rest)"
proof (induction s)
  case Nil
  show ?case by simp
next
  case (Cons c s)
  show ?case using parse_chars_escape [OF Cons.IH, of c] by simp
qed

lemma parse_string_quote: "parse_string (quote_json s @ rest) = Some (s, rest)"
  by (simp add: parse_string_def quote_json_def parse_chars_quoted)

lemma expect_append: "expect p (p @ r) = Some r"
  by (simp add: expect_def)

lemma parse_member_quote:
  "parse_member name (quote_json name @ '':'' @ quote_json v @ rest) = Some (v, rest)"
proof -
  have "expect (quote_json name @ '':'') ((quote_json name @ '':'') @ quote_json v @ rest)
          = Some (quote_json v @ rest)"
    by (rule expect_append)
  then show ?thesis
    by (simp add: parse_member_def parse_string_quote)
qed

lemma JSON_parse_stringify: "JSON_parse (JSON_stringify e) = Some e"
proof -
  have comma: "\<And>r. expect '','' ('','' @ r) = Some r"
    by (rule expect_append)
  have brace: "\<And>r. expect ''{'' (''{'' @ r) = Some r"
    by (rule expect_append)
  show ?thesis
    unfolding JSON_parse_def JSON_stringify_def
    by (simp only: brace comma parse_member_quote bind.bind_lunit prod.case append_Nil if_True refl)
       simp
qed

lemma JSON_stringify_nonempty: "JSON_stringify e \<noteq> []"
  by (simp add: JSON_stringify_def)

section \<open>What a grouped write touches\<close>

lemma keys_distinct:
  "getLedgerKey cfg a c \<noteq> getTotalKey cfg a c"
  "getLedgerKey cfg a c \<noteq> getContextKey cfg a c"
  "getTotalKey cfg a c \<noteq> getContextKey cfg a c"
  "getTotalKey cfg a c \<noteq> getLedgerKey cfg a c"
  "getContextKey cfg a c \<noteq> getLedgerKey cfg a c"
  "getContextKey cfg a c \<noteq> getTotalKey cfg a c"
  by (simp_all add: getLedgerKey_def getTotalKey_def getContextKey_def)

lemma hSet_other:
  "k \<noteq> key \<Longrightarrow> hSet key f v s k = s k"
  by (simp add: hSet_def split: option.splits rvalue.splits)

lemma hDel_other:
  "k \<noteq> key \<Longrightarrow> hDel key f s k = s k"
  by (simp add: hDel_def Let_def split: option.splits rvalue.splits)

lemma incrByFloat_other:
  "k \<noteq> key \<Longrightarrow> incrByFloat key d s k = s k"
  by (simp add: incrByFloat_def split: option.splits rvalue.splits)

lemma hIncrByFloat_other:
  "k \<noteq> key \<Longrightarrow> hIncrByFloat key f d s k = s k"
  by (simp add: hIncrByFloat_def split: option.splits rvalue.splits)

text \<open>Each mutation reads and writes its own key only.\<close>

lemma hSet_same:
  "s key = t key \<Longrightarrow> hSet key f v s key = hSet key f v t key"
  by (simp add: hSet_def split: option.splits rvalue.splits)

lemma hDel_same:
  "s key = t key \<Longrightarrow> hDel key f s key = hDel key f t key"
  by (simp add: hDel_def Let_def split: option.splits rvalue.splits)

lemma incrByFloat_same:
  "s key = t key \<Longrightarrow> incrByFloat key d s key = incrByFloat key d t key"
  by (simp add: incrByFloat_def split: option.splits rvalue.splits)

lemma hIncrByFloat_same:
  "s key = t key \<Longrightarrow> hIncrByFloat key f d s key = hIncrByFloat key f d t key"
  by (simp add: hIncrByFloat_def split: option.splits rvalue.splits)

text \<open>
  Whether a mutation is refused depends on its own key only, and a refused mutation
  changes nothing. An increment by a delta that is not finite is always refused.
\<close>

lemma refused_same:
  "s key = t key \<Longrightarrow> refused (HSet key f v) s = refused (HSet key f v) t"
  "s key = t key \<Longrightarrow> refused (HDel key f) s = refused (HDel key f) t"
  "s key = t key \<Longrightarrow> refused (IncrByFloat key d) s = refused (IncrByFloat key d) t"
  "s key = t key \<Longrightarrow> refused (HIncrByFloat key f d) s = refused (HIncrByFloat key f d) t"
  by (simp_all add: refused.simps)

lemma refused_unchanged:
  "refused cmd s \<Longrightarrow> apply_command cmd s = s"
  by (cases cmd)
     (auto simp: refused.simps hSet_def hDel_def incrByFloat_def hIncrByFloat_def
           split: option.splits rvalue.splits)

lemma incr_value_not_finite:
  "\<forall>x. d \<noteq> Finite x \<Longrightarrow> incr_value old d = None"
  by (cases d) (simp_all add: incr_value_def)

lemma refused_not_finite:
  assumes "\<forall>x. d \<noteq> Finite x"
  shows "refused (IncrByFloat key d) s" and "refused (HIncrByFloat key f d) s"
  using incr_value_not_finite [OF assms]
  by (simp_all add: refused.simps split: option.splits rvalue.splits)

lemma refused_HSet_hash:
  "hExists s key f = Inr b \<Longrightarrow> \<not> refused (HSet key f' v) s"
  by (auto simp: refused.simps hExists_def split: option.splits rvalue.splits)

text \<open>The store a grouped write leaves, and what \<open>exec\<close> returns.\<close>

lemma run_group_store:
  "snd (run_group cmds s) = fold apply_command cmds s"
  by (induction cmds arbitrary: s) (simp_all add: split_def)

lemma exec_eq:
  "exec cl cmds s =
     (if cl = NodeRedis \<and> fst (run_group cmds s) then Inl MultiErrorReply else Inr (),
      fold apply_command cmds s)"
  by (simp add: exec_def split_def run_group_store)

lemma exec_store:
  "snd (exec cl cmds s) = fold apply_command cmds s"
  by (simp add: exec_eq)

lemma fold_add_group:
  "fold apply_command (add_group cfg a c e) s =
     hIncrByFloat (getContextKey cfg a c) (entry_context e) (parseFloat (entry_amount e))
       (incrByFloat (getTotalKey cfg a c) (parseFloat (entry_amount e))
         (hSet (getLedgerKey cfg a c) (entry_id e) (JSON_stringify e) s))"
  by (simp add: add_group_def)

lemma fold_remove_group:
  "fold apply_command (remove_group cfg a c i e) s =
     hIncrByFloat (getContextKey cfg a c) (entry_context e) (negate (parseFloat (entry_amount e)))
       (incrByFloat (getTotalKey cfg a c) (negate (parseFloat (entry_amount e)))
         (hDel (getLedgerKey cfg a c) i s))"
  by (simp add: remove_group_def Let_def)

lemma add_group_refused:
  "fst (run_group (add_group cfg a c e) s) =
     (refused (HSet (getLedgerKey cfg a c) (entry_id e) (JSON_stringify e)) s \<or>
      refused (IncrByFloat (getTotalKey cfg a c) (parseFloat (entry_amount e))) s \<or>
      refused (HIncrByFloat (getContextKey cfg a c) (entry_context e)
                (parseFloat (entry_amount e))) s)"
proof -
  let ?k = "getLedgerKey cfg a c" and ?tk = "getTotalKey cfg a c" and ?ck = "getContextKey cfg a c"
  let ?d = "parseFloat (entry_amount e)"
  let ?s1 = "hSet ?k (entry_id e) (JSON_stringify e) s"
  have t: "refused (IncrByFloat ?tk ?d) ?s1 = refused (IncrByFloat ?tk ?d) s"
    by (rule refused_same) (simp add: hSet_other keys_distinct)
  have c: "refused (HIncrByFloat ?ck (entry_context e) ?d) (incrByFloat ?tk ?d ?s1)
             = refused (HIncrByFloat ?ck (entry_context e) ?d) s"
    by (rule refused_same) (simp add: hSet_other incrByFloat_other keys_distinct)
  show ?thesis
    by (simp add: add_group_def t c)
qed

lemma remove_group_refused:
  "fst (run_group (remove_group cfg a c i e) s) =
     (refused (HDel (getLedgerKey cfg a c) i) s \<or>
      refused (IncrByFloat (getTotalKey cfg a c) (negate (parseFloat (entry_amount e)))) s \<or>
      refused (HIncrByFloat (getContextKey cfg a c) (entry_context e)
                (negate (parseFloat (entry_amount e)))) s)"
proof -
  let ?k = "getLedgerKey cfg a c" and ?tk = "getTotalKey cfg a c" and ?ck = "getContextKey cfg a c"
  let ?d = "negate (parseFloat (entry_amount e))"
  let ?s1 = "hDel ?k i s"
  have t: "refused (IncrByFloat ?tk ?d) ?s1 = refused (IncrByFloat ?tk ?d) s"
    by (rule refused_same) (simp add: hDel_other keys_distinct)
  have c: "refused (HIncrByFloat ?ck (entry_context e) ?d) (incrByFloat ?tk ?d ?s1)
             = refused (HIncrByFloat ?ck (entry_context e) ?d) s"
    by (rule refused_same) (simp add: hDel_other incrByFloat_other keys_distinct)
  show ?thesis
    by (simp add: remove_group_def Let_def t c)
qed

lemma fold_add_group_view:
  "pair_view cfg a c (fold apply_command (add_group cfg a c e) s) =
     (hSet (getLedgerKey cfg a c) (entry_id e) (JSON_stringify e) s (getLedgerKey cfg a c),
      incrByFloat (getTotalKey cfg a c) (parseFloat (entry_amount e)) s (getTotalKey cfg a c),
      hIncrByFloat (getContextKey cfg a c) (entry_context e) (parseFloat (entry_amount e)) s
        (getContextKey cfg a c))"
proof -
  let ?k = "getLedgerKey cfg a c" and ?tk = "getTotalKey cfg a c" and ?ck = "getContextKey cfg a c"
  let ?d = "parseFloat (entry_amount e)"
  let ?s1 = "hSet ?k (entry_id e) (JSON_stringify e) s"
  let ?s2 = "incrByFloat ?tk ?d ?s1"
  let ?s3 = "hIncrByFloat ?ck (entry_context e) ?d ?s2"
  have k: "?s3 ?k = ?s1 ?k"
    by (simp add: hIncrByFloat_other incrByFloat_other keys_distinct)
  have "?s1 ?tk = s ?tk"
    by (simp add: hSet_other keys_distinct)
  then have "?s2 ?tk = incrByFloat ?tk ?d s ?tk"
    by (rule incrByFloat_same)
  then have tk: "?s3 ?tk = incrByFloat ?tk ?d s ?tk"
    by (simp add: hIncrByFloat_other keys_distinct)
  have "?s2 ?ck = s ?ck"
    by (simp add: hSet_other incrByFloat_other keys_distinct)
  then have ck: "?s3 ?ck = hIncrByFloat ?ck (entry_context e) ?d s ?ck"
    by (rule hIncrByFloat_same)
  show ?thesis
    unfolding pair_view_def fold_add_group using k tk ck by simp
qed

lemma fold_add_group_other:
  assumes "k \<noteq> getLedgerKey cfg a c" "k \<noteq> getTotalKey cfg a c" "k \<noteq> getContextKey cfg a c"
  shows "fold apply_command (add_group cfg a c e) s k = s k"
  using assms by (simp add: fold_add_group hSet_other incrByFloat_other hIncrByFloat_other)

lemma fold_remove_group_other:
  assumes "k \<noteq> getLedgerKey cfg a c" "k \<noteq> getTotalKey cfg a c" "k \<noteq> getContextKey cfg a c"
  shows "fold apply_command (remove_group cfg a c i e) s k = s k"
  using assms by (simp add: fold_remove_group hDel_other incrByFloat_other hIncrByFloat_other)

lemma hGet_hSet:
  assumes "hExists s key f = Inr b"
  shows "hGet (hSet key f v s) key f = Inr (Some v)"
  using assms
  by (auto simp: hExists_def hGet_def hSet_def update_conv' split: option.splits rvalue.splits)

text \<open>
  \<open>addEntry\<close> reads and writes the three values of its pair only, and the store it
  leaves does not depend on the client.
\<close>

lemma addEntry_view:
  assumes "pair_view cfg a c s = pair_view cfg a c t"
  shows "fst (addEntry cl cfg a c e s) = fst (addEntry cl cfg a c e t) \<and>
         pair_view cfg a c (snd (addEntry cl cfg a c e s))
           = pair_view cfg a c (snd (addEntry cl cfg a c e t))"
proof -
  let ?k = "getLedgerKey cfg a c" and ?tk = "getTotalKey cfg a c" and ?ck = "getContextKey cfg a c"
  from assms have k: "s ?k = t ?k" and tk: "s ?tk = t ?tk" and ck: "s ?ck = t ?ck"
    by (simp_all add: pair_view_def)
  have ex: "hExists s ?k (entry_id e) = hExists t ?k (entry_id e)"
    and len: "hLen s ?k = hLen t ?k"
    using k by (simp_all add: hExists_def hLen_def)
  have r: "fst (run_group (add_group cfg a c e) s) = fst (run_group (add_group cfg a c e) t)"
    unfolding add_group_refused
    using refused_same(1) [of s ?k t, OF k] refused_same(3) [of s ?tk t, OF tk]
      refused_same(4) [of s ?ck t, OF ck]
    by simp
  have w: "pair_view cfg a c (fold apply_command (add_group cfg a c e) s)
             = pair_view cfg a c (fold apply_command (add_group cfg a c e) t)"
    unfolding fold_add_group_view
    using hSet_same [of s ?k t, OF k] incrByFloat_same [of s ?tk t, OF tk]
      hIncrByFloat_same [of s ?ck t, OF ck] by simp
  show ?thesis
    using ex len w r assms
    by (auto simp: addEntry_def Let_def exec_eq split: sum.splits)
qed

lemma addEntry_store_client:
  "snd (addEntry cl cfg a c e s) = snd (addEntry cl' cfg a c e s)"
  by (auto simp: addEntry_def Let_def exec_eq split: sum.splits)

lemma removeEntry_exec:
  "(case exec cl cmds s of (Inl err, s') \<Rightarrow> (Inl err, s') | (Inr u, s') \<Rightarrow> (Inr True, s'))
     = (if cl = NodeRedis \<and> fst (run_group cmds s) then Inl MultiErrorReply else Inr True,
        fold apply_command cmds s)"
  by (simp add: exec_eq)

lemma removeEntry_store_client:
  "snd (removeEntry cl cfg a c i s) = snd (removeEntry cl' cfg a c i s)"
  by (auto simp: removeEntry_def removeEntry_exec split: sum.splits option.splits)

lemma fold_remove_group_view:
  "pair_view cfg a c (fold apply_command (remove_group cfg a c i e) s) =
     (hDel (getLedgerKey cfg a c) i s (getLedgerKey cfg a c),
      incrByFloat (getTotalKey cfg a c) (negate (parseFloat (entry_amount e))) s (getTotalKey cfg a c),
      hIncrByFloat (getContextKey cfg a c) (entry_context e) (negate (parseFloat (entry_amount e))) s
        (getContextKey cfg a c))"
proof -
  let ?k = "getLedgerKey cfg a c" and ?tk = "getTotalKey cfg a c" and ?ck = "getContextKey cfg a c"
  let ?d = "negate (parseFloat (entry_amount e))"
  let ?s1 = "hDel ?k i s"
  let ?s2 = "incrByFloat ?tk ?d ?s1"
  let ?s3 = "hIncrByFloat ?ck (entry_context e) ?d ?s2"
  have k: "?s3 ?k = ?s1 ?k"
    by (simp add: hIncrByFloat_other incrByFloat_other keys_distinct)
  have "?s1 ?tk = s ?tk"
    by (simp add: hDel_other keys_distinct)
  then have "?s2 ?tk = incrByFloat ?tk ?d s ?tk"
    by (rule incrByFloat_same)
  then have tk: "?s3 ?tk = incrByFloat ?tk ?d s ?tk"
    by (simp add: hIncrByFloat_other keys_distinct)
  have "?s2 ?ck = s ?ck"
    by (simp add: hDel_other incrByFloat_other keys_distinct)
  then have ck: "?s3 ?ck = hIncrByFloat ?ck (entry_context e) ?d s ?ck"
    by (rule hIncrByFloat_same)
  show ?thesis
    unfolding pair_view_def fold_remove_group using k tk ck by simp
qed

section \<open>The sample stores, evaluated\<close>

text \<open>The numbers of the examples, each computed once.\<close>

lemma parseFloat_examples:
  "parseFloat ''100.00'' = Finite 100"
  "parseFloat ''-30.00'' = Finite (- 30)"
  "parseFloat ''9007199254740993'' = Finite 9007199254740992"
  "parseFloat ''abc'' = NaN"
  by code_simp+

lemma incr_value_examples:
  "incr_value None (Finite 100) = Some ''100''"
  "incr_value None (Finite (- 30)) = Some ''-30''"
  "incr_value (Some ''100'') (Finite (- 30)) = Some ''70''"
  "incr_value (Some ''100'') (Finite 100) = Some ''200''"
  "incr_value (Some ''70'') (Finite (- 100)) = Some ''-30''"
  "incr_value (Some ''100'') (Finite (- 100)) = Some ''0''"
  "incr_value None (Finite 9007199254740992) = Some ''9007199254740992''"
  by code_simp+


lemma entry_fields:
  "entry_id entry_t1 = ''t1''" "entry_context entry_t1 = ''deposit''" "entry_amount entry_t1 = ''100.00''"
  "entry_id entry_t2 = ''t2''" "entry_context entry_t2 = ''withdrawal''" "entry_amount entry_t2 = ''-30.00''"
  "entry_id entry_bad_amount = ''t3''" "entry_context entry_bad_amount = ''deposit''"
  "entry_amount entry_bad_amount = ''abc''"
  "entry_id entry_big = ''t1''" "entry_context entry_big = ''deposit''"
  "entry_amount entry_big = ''9007199254740993''"
  by (simp_all add: entry_t1_def entry_t2_def entry_bad_amount_def entry_big_def)

lemma default_limit:
  "maxEntriesPerKey DEFAULT_CONFIG = 1000000"
  by (simp add: DEFAULT_CONFIG_def)

lemmas store_ops = hExists_def hLen_def hGet_def hGetAll_def get_def hSet_def hDel_def
  incrByFloat_def hIncrByFloat_def

lemma view_empty:
  "pair_view cfg a c Map.empty = (None, None, None)"
  by (simp add: pair_view_def)

lemma addEntry_empty:
  "0 < maxEntriesPerKey cfg \<Longrightarrow>
   addEntry cl cfg a c e Map.empty = exec cl (add_group cfg a c e) Map.empty"
  by (simp add: addEntry_def store_ops)

text \<open>
  The grouped writes of the scenario are accepted, so \<open>exec\<close> resolves under either
  client.
\<close>

lemma exec_t1:
  "exec cl (add_group DEFAULT_CONFIG ''u1'' ''usd'' entry_t1) Map.empty = (Inr (), store_t1)"
proof -
  have "\<not> fst (run_group (add_group DEFAULT_CONFIG ''u1'' ''usd'' entry_t1) Map.empty)"
    by (simp add: add_group_refused refused.simps entry_fields parseFloat_examples
          incr_value_examples)
  then show ?thesis
    by (simp add: exec_eq store_t1_def addEntry_empty default_limit)
qed

lemma view_t1:
  "pair_view DEFAULT_CONFIG ''u1'' ''usd'' store_t1 =
     (Some (RHash [(''t1'', JSON_stringify entry_t1)]), Some (RString ''100''),
      Some (RHash [(''deposit'', ''100'')]))"
  unfolding store_t1_def
  by (simp add: addEntry_empty default_limit exec_store fold_add_group_view store_ops entry_fields
        parseFloat_examples incr_value_examples)

lemma store_t1_vals:
  "store_t1 (getLedgerKey DEFAULT_CONFIG ''u1'' ''usd'') = Some (RHash [(''t1'', JSON_stringify entry_t1)])"
  "store_t1 (getTotalKey DEFAULT_CONFIG ''u1'' ''usd'') = Some (RString ''100'')"
  "store_t1 (getContextKey DEFAULT_CONFIG ''u1'' ''usd'') = Some (RHash [(''deposit'', ''100'')])"
  using view_t1 by (simp_all add: pair_view_def)

lemma addEntry_t1:
  "addEntry cl DEFAULT_CONFIG ''u1'' ''usd'' entry_t1 Map.empty = (Inr (), store_t1)"
  by (simp add: addEntry_empty default_limit exec_t1)

lemma addEntry_t2:
  "addEntry cl DEFAULT_CONFIG ''u1'' ''usd'' entry_t2 store_t1 = (Inr (), store_t12)"
proof -
  have run: "addEntry cl DEFAULT_CONFIG ''u1'' ''usd'' entry_t2 store_t1
               = exec cl (add_group DEFAULT_CONFIG ''u1'' ''usd'' entry_t2) store_t1" for cl
    by (simp add: addEntry_def store_ops store_t1_vals entry_fields default_limit)
  have "\<not> fst (run_group (add_group DEFAULT_CONFIG ''u1'' ''usd'' entry_t2) store_t1)"
    by (simp add: add_group_refused refused.simps store_t1_vals entry_fields parseFloat_examples
          incr_value_examples)
  then show ?thesis
    by (simp add: run exec_eq store_t12_def)
qed

lemma view_t12:
  "pair_view DEFAULT_CONFIG ''u1'' ''usd'' store_t12 =
     (Some (RHash [(''t1'', JSON_stringify entry_t1), (''t2'', JSON_stringify entry_t2)]),
      Some (RString ''70''),
      Some (RHash [(''deposit'', ''100''), (''withdrawal'', ''-30'')]))"
proof -
  have eq: "store_t12 = fold apply_command (add_group DEFAULT_CONFIG ''u1'' ''usd'' entry_t2) store_t1"
    by (simp add: store_t12_def addEntry_def store_ops store_t1_vals entry_fields default_limit
          exec_eq)
  show ?thesis
    unfolding eq
    by (simp add: fold_add_group_view store_ops store_t1_vals entry_fields
          parseFloat_examples incr_value_examples)
qed

lemma store_t12_vals:
  "store_t12 (getLedgerKey DEFAULT_CONFIG ''u1'' ''usd'')
     = Some (RHash [(''t1'', JSON_stringify entry_t1), (''t2'', JSON_stringify entry_t2)])"
  "store_t12 (getTotalKey DEFAULT_CONFIG ''u1'' ''usd'') = Some (RString ''70'')"
  "store_t12 (getContextKey DEFAULT_CONFIG ''u1'' ''usd'')
     = Some (RHash [(''deposit'', ''100''), (''withdrawal'', ''-30'')])"
  using view_t12 by (simp_all add: pair_view_def)

lemma removeEntry_t1:
  "removeEntry cl DEFAULT_CONFIG ''u1'' ''usd'' ''t1'' store_t12
     = (Inr True,
        fold apply_command (remove_group DEFAULT_CONFIG ''u1'' ''usd'' ''t1'' entry_t1) store_t12)"
proof -
  have "\<not> fst (run_group (remove_group DEFAULT_CONFIG ''u1'' ''usd'' ''t1'' entry_t1) store_t12)"
    by (simp add: remove_group_refused refused.simps store_t12_vals entry_fields
          parseFloat_examples incr_value_examples)
  then show ?thesis
    by (simp add: removeEntry_def removeEntry_exec hGet_def store_t12_vals JSON_parse_stringify
          JSON_stringify_nonempty)
qed

lemma view_after_remove:
  "pair_view DEFAULT_CONFIG ''u1'' ''usd''
     (snd (removeEntry cl DEFAULT_CONFIG ''u1'' ''usd'' ''t1'' store_t12)) =
     (Some (RHash [(''t2'', JSON_stringify entry_t2)]), Some (RString ''-30''),
      Some (RHash [(''deposit'', ''0''), (''withdrawal'', ''-30'')]))"
  by (simp add: removeEntry_t1 fold_remove_group_view store_ops store_t12_vals entry_fields
        parseFloat_examples incr_value_examples)

lemma store_after_remove_vals:
  "snd (removeEntry cl DEFAULT_CONFIG ''u1'' ''usd'' ''t1'' store_t12) (getLedgerKey DEFAULT_CONFIG ''u1'' ''usd'')
     = Some (RHash [(''t2'', JSON_stringify entry_t2)])"
  "snd (removeEntry cl DEFAULT_CONFIG ''u1'' ''usd'' ''t1'' store_t12) (getTotalKey DEFAULT_CONFIG ''u1'' ''usd'')
     = Some (RString ''-30'')"
  "snd (removeEntry cl DEFAULT_CONFIG ''u1'' ''usd'' ''t1'' store_t12) (getContextKey DEFAULT_CONFIG ''u1'' ''usd'')
     = Some (RHash [(''deposit'', ''0''), (''withdrawal'', ''-30'')])"
  using view_after_remove [of cl] by (simp_all add: pair_view_def)

lemma addEntry_big:
  "fst (addEntry cl DEFAULT_CONFIG ''u1'' ''usd'' entry_big Map.empty) = Inr ()"
proof -
  have "\<not> fst (run_group (add_group DEFAULT_CONFIG ''u1'' ''usd'' entry_big) Map.empty)"
    by (simp add: add_group_refused refused.simps entry_fields parseFloat_examples
          incr_value_examples)
  then show ?thesis
    by (simp add: addEntry_empty default_limit exec_eq)
qed

lemma view_big:
  "pair_view DEFAULT_CONFIG ''u1'' ''usd''
     (snd (addEntry cl DEFAULT_CONFIG ''u1'' ''usd'' entry_big Map.empty)) =
     (Some (RHash [(''t1'', JSON_stringify entry_big)]), Some (RString ''9007199254740992''),
      Some (RHash [(''deposit'', ''9007199254740992'')]))"
  by (simp add: addEntry_empty default_limit exec_store fold_add_group_view store_ops entry_fields
        parseFloat_examples incr_value_examples)

lemma limit_one_key:
  "getLedgerKey (make_config (Some 1) None) a c = getLedgerKey DEFAULT_CONFIG a c"
  by (simp add: getLedgerKey_def make_config_def)

text \<open>Two calls with the same entry, interleaved step by step.\<close>

lemma exec_twice:
  "exec cl (add_group DEFAULT_CONFIG ''u1'' ''usd'' entry_t1) store_t1
     = (Inr (), fold apply_command (add_group DEFAULT_CONFIG ''u1'' ''usd'' entry_t1) store_t1)"
proof -
  have "\<not> fst (run_group (add_group DEFAULT_CONFIG ''u1'' ''usd'' entry_t1) store_t1)"
    by (simp add: add_group_refused refused.simps store_t1_vals entry_fields parseFloat_examples
          incr_value_examples)
  then show ?thesis
    by (simp add: exec_eq)
qed

lemma interleaved_run:
  "run_schedule cl DEFAULT_CONFIG ''u1'' ''usd'' [0, 1, 0, 1, 0, 1]
     ([(entry_t1, Start), (entry_t1, Start)], Map.empty)
   = ([(entry_t1, Resolved), (entry_t1, Resolved)],
      fold apply_command (add_group DEFAULT_CONFIG ''u1'' ''usd'' entry_t1) store_t1)"
  by (simp add: hExists_def hLen_def default_limit exec_t1 exec_twice)

lemma sequential_run:
  "run_schedule cl DEFAULT_CONFIG ''u1'' ''usd'' [0, 0, 0, 1, 1, 1]
     ([(entry_t1, Start), (entry_t1, Start)], Map.empty)
   = ([(entry_t1, Resolved), (entry_t1, Rejected DuplicateEntry)], store_t1)"
proof -
  have first: "run_schedule cl DEFAULT_CONFIG ''u1'' ''usd'' [0, 0, 0, 1, 1, 1]
     ([(entry_t1, Start), (entry_t1, Start)], Map.empty)
     = run_schedule cl DEFAULT_CONFIG ''u1'' ''usd'' [1, 1, 1]
         ([(entry_t1, Resolved), (entry_t1, Start)], store_t1)"
    by (simp add: hExists_def hLen_def default_limit exec_t1)
  show ?thesis
    unfolding first by (simp add: hExists_def store_t1_vals entry_fields)
qed

lemma view_twice:
  "pair_view DEFAULT_CONFIG ''u1'' ''usd''
     (fold apply_command (add_group DEFAULT_CONFIG ''u1'' ''usd'' entry_t1) store_t1) =
     (Some (RHash [(''t1'', JSON_stringify entry_t1)]), Some (RString ''200''),
      Some (RHash [(''deposit'', ''200'')]))"
  by (simp add: fold_add_group_view store_ops store_t1_vals entry_fields
        parseFloat_examples incr_value_examples)

section \<open>Rejected additions\<close>

lemma addEntry_as_steps:
  "addEntry cl cfg a c e s =
     (let (st1, s1) = step_call cl cfg a c e Start s;
          (st2, s2) = step_call cl cfg a c e st1 s1;
          (st3, s3) = step_call cl cfg a c e st2 s2
      in (case st3 of Rejected err \<Rightarrow> Inl err | _ \<Rightarrow> Inr (), s3))"
  by (auto simp: addEntry_def Let_def exec_eq split: sum.splits)

text \<open>
  C3. If an entry with the id of \<open>e\<close> is present in the entries hash of the pair,
  \<open>addEntry\<close> rejects with \<open>DuplicateEntry\<close> and the store (hence the entries map,
  the total and the per-context sums of the pair) is exactly what it was.
\<close>

theorem addEntry_duplicate_rejected:
  assumes "hExists s (getLedgerKey cfg a c) (entry_id e) = Inr True"
  shows "addEntry cl cfg a c e s = (Inl DuplicateEntry, s)"
  using assms by (simp add: addEntry_def)

theorem addEntry_duplicate_rejected_witness:
  "hExists store_t1 (getLedgerKey DEFAULT_CONFIG ''u1'' ''usd'') (entry_id entry_t1) = Inr True \<and>
   addEntry NodeRedis DEFAULT_CONFIG ''u1'' ''usd'' entry_t1 store_t1 = (Inl DuplicateEntry, store_t1) \<and>
   addEntry IORedis DEFAULT_CONFIG ''u1'' ''usd'' entry_t1 store_t1 = (Inl DuplicateEntry, store_t1)"
proof -
  have h: "hExists store_t1 (getLedgerKey DEFAULT_CONFIG ''u1'' ''usd'') (entry_id entry_t1) = Inr True"
    by (simp add: hExists_def store_t1_vals entry_fields)
  show ?thesis
    using h addEntry_duplicate_rejected [OF h, of NodeRedis]
      addEntry_duplicate_rejected [OF h, of IORedis]
    by simp
qed

text \<open>
  C4. For every configured \<open>maxEntriesPerKey\<close> (1,000,000 when the constructor is given
  none): if the entries hash of the pair holds at least that many fields, \<open>addEntry\<close>
  with a fresh id rejects with \<open>LimitExceeded\<close> and the store is exactly what it was.
\<close>

theorem addEntry_limit_rejected:
  assumes "hExists s (getLedgerKey cfg a c) (entry_id e) = Inr False"
    and "hLen s (getLedgerKey cfg a c) = Inr n"
    and "maxEntriesPerKey cfg \<le> int n"
  shows "addEntry cl cfg a c e s = (Inl LimitExceeded, s) \<and>
         maxEntriesPerKey (make_config None p) = 1000000"
  using assms by (simp add: addEntry_def make_config_def DEFAULT_CONFIG_def)

theorem addEntry_limit_rejected_witness:
  "hExists store_t1 (getLedgerKey (make_config (Some 1) None) ''u1'' ''usd'') (entry_id entry_t2) = Inr False \<and>
   hLen store_t1 (getLedgerKey (make_config (Some 1) None) ''u1'' ''usd'') = Inr 1 \<and>
   addEntry NodeRedis (make_config (Some 1) None) ''u1'' ''usd'' entry_t2 store_t1
     = (Inl LimitExceeded, store_t1) \<and>
   addEntry IORedis (make_config (Some 1) None) ''u1'' ''usd'' entry_t2 store_t1
     = (Inl LimitExceeded, store_t1)"
proof -
  have h1: "hExists store_t1 (getLedgerKey (make_config (Some 1) None) ''u1'' ''usd'') (entry_id entry_t2) = Inr False"
    by (simp add: limit_one_key hExists_def store_t1_vals entry_fields)
  have h2: "hLen store_t1 (getLedgerKey (make_config (Some 1) None) ''u1'' ''usd'') = Inr 1"
    by (simp add: limit_one_key hLen_def store_t1_vals)
  have h3: "maxEntriesPerKey (make_config (Some 1) None) \<le> int 1"
    by (simp add: make_config_def)
  show ?thesis
    using h1 h2 addEntry_limit_rejected [OF h1 h2 h3, of NodeRedis]
      addEntry_limit_rejected [OF h1 h2 h3, of IORedis]
    by simp
qed

section \<open>Round trip of an entry\<close>

text \<open>
  C9. After a successful \<open>addEntry\<close> of \<open>e\<close>, \<open>getEntry\<close> with the id of \<open>e\<close> on
  the same pair returns \<open>e\<close> itself: every field, the amount string included, is what
  was passed in.
\<close>

theorem getEntry_after_addEntry:
  assumes "addEntry cl cfg a c e s = (Inr (), s')"
  shows "getEntry cfg a c (entry_id e) s' = Inr (Some e)"
proof -
  let ?key = "getLedgerKey cfg a c"
  from assms have ex: "hExists s ?key (entry_id e) = Inr False"
    and s': "s' = fold apply_command (add_group cfg a c e) s"
    by (auto simp: addEntry_def Let_def exec_eq split: sum.splits if_splits)
  have "s' ?key = hSet ?key (entry_id e) (JSON_stringify e) s ?key"
    using fold_add_group_view [of cfg a c e s] by (simp add: s' pair_view_def)
  then have "hGet s' ?key (entry_id e) = hGet (hSet ?key (entry_id e) (JSON_stringify e) s) ?key (entry_id e)"
    by (simp add: hGet_def)
  then have "hGet s' ?key (entry_id e) = Inr (Some (JSON_stringify e))"
    using hGet_hSet [OF ex] by simp
  then show ?thesis
    by (simp add: getEntry_def JSON_parse_stringify JSON_stringify_nonempty)
qed

theorem getEntry_after_addEntry_witness:
  "addEntry NodeRedis DEFAULT_CONFIG ''u1'' ''usd'' entry_t1 Map.empty = (Inr (), store_t1) \<and>
   addEntry IORedis DEFAULT_CONFIG ''u1'' ''usd'' entry_t1 Map.empty = (Inr (), store_t1) \<and>
   getEntry DEFAULT_CONFIG ''u1'' ''usd'' ''t1'' store_t1 = Inr (Some entry_t1) \<and>
   entry_amount entry_t1 = ''100.00''"
proof -
  have h: "addEntry NodeRedis DEFAULT_CONFIG ''u1'' ''usd'' entry_t1 Map.empty = (Inr (), store_t1)"
    and h': "addEntry IORedis DEFAULT_CONFIG ''u1'' ''usd'' entry_t1 Map.empty = (Inr (), store_t1)"
    by (rule addEntry_t1)+
  show ?thesis
    using h h' getEntry_after_addEntry [OF h] by (simp add: entry_t1_def)
qed

section \<open>Amounts are not validated\<close>

text \<open>
  C10, as stated, fails through node-redis: for the amount \<open>''abc''\<close>, with a fresh id
  on an empty pair, \<open>parseFloat\<close> gives \<open>NaN\<close>, the store refuses both increments,
  and \<open>exec\<close> throws after the entry has been written. The call is rejected, the entry
  is stored, and the total is still absent.
\<close>

theorem bad_amount_rejected_after_write:
  "hExists Map.empty (getLedgerKey DEFAULT_CONFIG ''u1'' ''usd'') (entry_id entry_bad_amount) = Inr False \<and>
   hLen Map.empty (getLedgerKey DEFAULT_CONFIG ''u1'' ''usd'') = Inr 0 \<and>
   parseFloat (entry_amount entry_bad_amount) = NaN \<and>
   fst (addEntry NodeRedis DEFAULT_CONFIG ''u1'' ''usd'' entry_bad_amount Map.empty)
     = Inl MultiErrorReply \<and>
   getEntry DEFAULT_CONFIG ''u1'' ''usd'' ''t3''
     (snd (addEntry NodeRedis DEFAULT_CONFIG ''u1'' ''usd'' entry_bad_amount Map.empty))
     = Inr (Some entry_bad_amount) \<and>
   getSum DEFAULT_CONFIG ''u1'' ''usd''
     (snd (addEntry NodeRedis DEFAULT_CONFIG ''u1'' ''usd'' entry_bad_amount Map.empty)) = Inr ''0''"
proof -
  let ?g = "add_group DEFAULT_CONFIG ''u1'' ''usd'' entry_bad_amount"
  have nan: "parseFloat (entry_amount entry_bad_amount) = NaN"
    by (simp add: entry_fields parseFloat_examples)
  have "refused (IncrByFloat (getTotalKey DEFAULT_CONFIG ''u1'' ''usd'')
          (parseFloat (entry_amount entry_bad_amount))) Map.empty"
    by (rule refused_not_finite) (simp add: nan)
  then have "fst (run_group ?g Map.empty)"
    by (simp add: add_group_refused)
  then have run: "addEntry NodeRedis DEFAULT_CONFIG ''u1'' ''usd'' entry_bad_amount Map.empty
                    = (Inl MultiErrorReply, fold apply_command ?g Map.empty)"
    by (simp add: addEntry_empty default_limit exec_eq)
  have "pair_view DEFAULT_CONFIG ''u1'' ''usd'' (fold apply_command ?g Map.empty) =
          (Some (RHash [(''t3'', JSON_stringify entry_bad_amount)]), None, None)"
    by (simp add: fold_add_group_view store_ops entry_fields parseFloat_examples incr_value_def)
  then have vals:
    "fold apply_command ?g Map.empty (getLedgerKey DEFAULT_CONFIG ''u1'' ''usd'')
       = Some (RHash [(''t3'', JSON_stringify entry_bad_amount)])"
    "fold apply_command ?g Map.empty (getTotalKey DEFAULT_CONFIG ''u1'' ''usd'') = None"
    by (simp_all add: pair_view_def)
  have stored: "getEntry DEFAULT_CONFIG ''u1'' ''usd'' ''t3'' (fold apply_command ?g Map.empty)
                  = Inr (Some entry_bad_amount)"
    by (simp add: getEntry_def hGet_def vals JSON_parse_stringify JSON_stringify_nonempty)
  have total: "getSum DEFAULT_CONFIG ''u1'' ''usd'' (fold apply_command ?g Map.empty) = Inr ''0''"
    by (simp add: getSum_def get_def vals)
  show ?thesis
    using nan stored total by (simp add: run hExists_def hLen_def)
qed

text \<open>
  C10, amended. \<open>addEntry\<close> puts no condition on the amount string: with a fresh id on
  a pair below the limit, for every amount, it issues the grouped write that stores the
  entry and increments the total and the per-context sum by \<open>parseFloat\<close> of the
  amount, whatever that is (\<open>NaN\<close> for a string with no numeric prefix), and the entry
  is stored afterwards. It is never rejected with \<open>DuplicateEntry\<close>,
  \<open>LimitExceeded\<close> or an error of its own about the amount: through ioredis it
  resolves, and through node-redis it resolves exactly when the store accepts both
  increments and is rejected with the client's \<open>MultiErrorReply\<close> otherwise. The
  store refuses an increment by \<open>NaN\<close> or an infinity and leaves the total and the
  per-context sums as they were.
\<close>

theorem addEntry_no_amount_validation:
  assumes "hExists s (getLedgerKey cfg a c) (entry_id e) = Inr False"
    and "hLen s (getLedgerKey cfg a c) = Inr n"
    and "int n < maxEntriesPerKey cfg"
  shows "addEntry cl cfg a c e s =
           exec cl [HSet (getLedgerKey cfg a c) (entry_id e) (JSON_stringify e),
                    IncrByFloat (getTotalKey cfg a c) (parseFloat (entry_amount e)),
                    HIncrByFloat (getContextKey cfg a c) (entry_context e)
                      (parseFloat (entry_amount e))] s \<and>
         hGet (snd (addEntry cl cfg a c e s)) (getLedgerKey cfg a c) (entry_id e)
           = Inr (Some (JSON_stringify e)) \<and>
         fst (addEntry cl cfg a c e s) =
           (if cl = NodeRedis \<and>
               (refused (IncrByFloat (getTotalKey cfg a c) (parseFloat (entry_amount e))) s \<or>
                refused (HIncrByFloat (getContextKey cfg a c) (entry_context e)
                          (parseFloat (entry_amount e))) s)
            then Inl MultiErrorReply else Inr ()) \<and>
         (parseFloat (entry_amount e) \<in> {NaN, PosInfinity, NegInfinity} \<longrightarrow>
            refused (IncrByFloat (getTotalKey cfg a c) (parseFloat (entry_amount e))) s \<and>
            refused (HIncrByFloat (getContextKey cfg a c) (entry_context e)
                      (parseFloat (entry_amount e))) s \<and>
            snd (addEntry cl cfg a c e s) (getTotalKey cfg a c) = s (getTotalKey cfg a c) \<and>
            snd (addEntry cl cfg a c e s) (getContextKey cfg a c) = s (getContextKey cfg a c))"
proof -
  let ?key = "getLedgerKey cfg a c" and ?tk = "getTotalKey cfg a c" and ?ck = "getContextKey cfg a c"
  let ?d = "parseFloat (entry_amount e)"
  let ?s' = "fold apply_command (add_group cfg a c e) s"
  have run: "addEntry cl cfg a c e s = exec cl (add_group cfg a c e) s"
    using assms by (simp add: addEntry_def)
  have snd: "snd (addEntry cl cfg a c e s) = ?s'"
    by (simp add: run exec_store)
  have view: "pair_view cfg a c ?s' =
                (hSet ?key (entry_id e) (JSON_stringify e) s ?key, incrByFloat ?tk ?d s ?tk,
                 hIncrByFloat ?ck (entry_context e) ?d s ?ck)"
    by (rule fold_add_group_view)
  have "?s' ?key = hSet ?key (entry_id e) (JSON_stringify e) s ?key"
    using view by (simp add: pair_view_def)
  then have "hGet ?s' ?key (entry_id e)
               = hGet (hSet ?key (entry_id e) (JSON_stringify e) s) ?key (entry_id e)"
    by (simp add: hGet_def)
  then have stored: "hGet ?s' ?key (entry_id e) = Inr (Some (JSON_stringify e))"
    using hGet_hSet [OF assms(1)] by simp
  have "\<not> refused (HSet ?key (entry_id e) (JSON_stringify e)) s"
    using assms(1) by (rule refused_HSet_hash)
  then have res: "fst (addEntry cl cfg a c e s) =
           (if cl = NodeRedis \<and>
               (refused (IncrByFloat ?tk ?d) s \<or> refused (HIncrByFloat ?ck (entry_context e) ?d) s)
            then Inl MultiErrorReply else Inr ())"
    by (simp add: run exec_eq add_group_refused)
  have nf: "refused (IncrByFloat ?tk ?d) s \<and> refused (HIncrByFloat ?ck (entry_context e) ?d) s \<and>
            ?s' ?tk = s ?tk \<and> ?s' ?ck = s ?ck"
    if "?d \<in> {NaN, PosInfinity, NegInfinity}"
  proof -
    from that have all: "\<forall>x. ?d \<noteq> Finite x" by auto
    have r1: "refused (IncrByFloat ?tk ?d) s"
      and r2: "refused (HIncrByFloat ?ck (entry_context e) ?d) s"
      using refused_not_finite [OF all] by blast+
    have "incrByFloat ?tk ?d s = s" "hIncrByFloat ?ck (entry_context e) ?d s = s"
      using refused_unchanged [OF r1] refused_unchanged [OF r2] by simp_all
    then have "?s' ?tk = s ?tk" "?s' ?ck = s ?ck"
      using view by (simp_all add: pair_view_def)
    then show ?thesis using r1 r2 by blast
  qed
  show ?thesis
    using stored res nf by (simp add: run snd add_group_def exec_store)
qed

theorem addEntry_no_amount_validation_witness:
  "hExists store_t1 (getLedgerKey DEFAULT_CONFIG ''u1'' ''usd'') (entry_id entry_bad_amount) = Inr False \<and>
   hLen store_t1 (getLedgerKey DEFAULT_CONFIG ''u1'' ''usd'') = Inr 1 \<and>
   parseFloat (entry_amount entry_bad_amount) = NaN \<and>
   fst (addEntry IORedis DEFAULT_CONFIG ''u1'' ''usd'' entry_bad_amount store_t1) = Inr () \<and>
   hGet (snd (addEntry IORedis DEFAULT_CONFIG ''u1'' ''usd'' entry_bad_amount store_t1))
     (getLedgerKey DEFAULT_CONFIG ''u1'' ''usd'') ''t3'' = Inr (Some (JSON_stringify entry_bad_amount)) \<and>
   snd (addEntry IORedis DEFAULT_CONFIG ''u1'' ''usd'' entry_bad_amount store_t1)
     (getTotalKey DEFAULT_CONFIG ''u1'' ''usd'') = Some (RString ''100'')"
proof -
  have h1: "hExists store_t1 (getLedgerKey DEFAULT_CONFIG ''u1'' ''usd'') (entry_id entry_bad_amount) = Inr False"
    by (simp add: hExists_def store_t1_vals entry_fields)
  have h2: "hLen store_t1 (getLedgerKey DEFAULT_CONFIG ''u1'' ''usd'') = Inr 1"
    by (simp add: hLen_def store_t1_vals)
  have h3: "int 1 < maxEntriesPerKey DEFAULT_CONFIG"
    by (simp add: default_limit)
  have nan: "parseFloat (entry_amount entry_bad_amount) = NaN"
    by (simp add: entry_fields parseFloat_examples)
  note r = addEntry_no_amount_validation [OF h1 h2 h3, of IORedis]
  note r2 = r [THEN conjunct2, THEN conjunct1]
  note r3 = r [THEN conjunct2, THEN conjunct2, THEN conjunct1]
  note r4 = r [THEN conjunct2, THEN conjunct2, THEN conjunct2]
  have ok: "fst (addEntry IORedis DEFAULT_CONFIG ''u1'' ''usd'' entry_bad_amount store_t1) = Inr ()"
    using r3 by simp
  have i: "entry_id entry_bad_amount = ''t3''"
    by (simp add: entry_bad_amount_def)
  have stored: "hGet (snd (addEntry IORedis DEFAULT_CONFIG ''u1'' ''usd'' entry_bad_amount store_t1))
     (getLedgerKey DEFAULT_CONFIG ''u1'' ''usd'') ''t3'' = Inr (Some (JSON_stringify entry_bad_amount))"
    using r2 by (simp add: i)
  have "snd (addEntry IORedis DEFAULT_CONFIG ''u1'' ''usd'' entry_bad_amount store_t1)
          (getTotalKey DEFAULT_CONFIG ''u1'' ''usd'') = store_t1 (getTotalKey DEFAULT_CONFIG ''u1'' ''usd'')"
    using r4 nan by simp
  then have total: "snd (addEntry IORedis DEFAULT_CONFIG ''u1'' ''usd'' entry_bad_amount store_t1)
     (getTotalKey DEFAULT_CONFIG ''u1'' ''usd'') = Some (RString ''100'')"
    by (simp add: store_t1_vals)
  show ?thesis
    using h1 h2 nan ok stored total by blast
qed

section \<open>Clearing a pair\<close>

text \<open>
  C5. For every store, \<open>clearLedger\<close> resolves; afterwards \<open>getSum\<close> is \<open>''0''\<close>,
  \<open>getBalance\<close> reports total \<open>''0''\<close>, no context and no entry; clearing again
  resolves and changes nothing; and \<open>addEntry\<close> on the cleared pair resolves or
  rejects, and leaves the three values of the pair, exactly as it does on any store in
  which the pair was never written.
\<close>

theorem clearLedger_complete:
  "fst (clearLedger cfg a c s) = Inr () \<and>
   getSum cfg a c (snd (clearLedger cfg a c s)) = Inr ''0'' \<and>
   getBalance cfg a c (snd (clearLedger cfg a c s))
     = Inr \<lparr>total_str = ''0'', byContext = [], entryCount = 0\<rparr> \<and>
   clearLedger cfg a c (snd (clearLedger cfg a c s)) = (Inr (), snd (clearLedger cfg a c s)) \<and>
   (\<forall>cl t e. pair_view cfg a c t = (None, None, None) \<longrightarrow>
      fst (addEntry cl cfg a c e (snd (clearLedger cfg a c s))) = fst (addEntry cl cfg a c e t) \<and>
      pair_view cfg a c (snd (addEntry cl cfg a c e (snd (clearLedger cfg a c s))))
        = pair_view cfg a c (snd (addEntry cl cfg a c e t)))"
proof -
  let ?s' = "snd (clearLedger cfg a c s)"
  have view: "pair_view cfg a c ?s' = (None, None, None)"
    by (simp add: clearLedger_def del_def pair_view_def)
  have idem: "clearLedger cfg a c ?s' = (Inr (), ?s')"
    by (auto simp: clearLedger_def del_def)
  have sum: "getSum cfg a c ?s' = Inr ''0''"
    by (simp add: getSum_def get_def clearLedger_def del_def)
  have bal: "getBalance cfg a c ?s' = Inr \<lparr>total_str = ''0'', byContext = [], entryCount = 0\<rparr>"
    by (simp add: getBalance_def get_def hLen_def hGetAll_def clearLedger_def del_def)
  have add: "\<And>cl t e. pair_view cfg a c t = (None, None, None) \<Longrightarrow>
      fst (addEntry cl cfg a c e ?s') = fst (addEntry cl cfg a c e t) \<and>
      pair_view cfg a c (snd (addEntry cl cfg a c e ?s')) = pair_view cfg a c (snd (addEntry cl cfg a c e t))"
    using view by (intro addEntry_view) simp
  show ?thesis
    using idem sum bal add by (simp add: clearLedger_def)
qed

theorem clearLedger_complete_witness:
  "pair_view DEFAULT_CONFIG ''u1'' ''usd'' Map.empty = (None, None, None) \<and>
   getSum DEFAULT_CONFIG ''u1'' ''usd'' store_t1 = Inr ''100'' \<and>
   getSum DEFAULT_CONFIG ''u1'' ''usd'' (snd (clearLedger DEFAULT_CONFIG ''u1'' ''usd'' store_t1)) = Inr ''0'' \<and>
   fst (addEntry NodeRedis DEFAULT_CONFIG ''u1'' ''usd'' entry_t1 (snd (clearLedger DEFAULT_CONFIG ''u1'' ''usd'' store_t1)))
     = fst (addEntry NodeRedis DEFAULT_CONFIG ''u1'' ''usd'' entry_t1 Map.empty) \<and>
   pair_view DEFAULT_CONFIG ''u1'' ''usd''
       (snd (addEntry NodeRedis DEFAULT_CONFIG ''u1'' ''usd'' entry_t1 (snd (clearLedger DEFAULT_CONFIG ''u1'' ''usd'' store_t1))))
     = pair_view DEFAULT_CONFIG ''u1'' ''usd'' (snd (addEntry NodeRedis DEFAULT_CONFIG ''u1'' ''usd'' entry_t1 Map.empty))"
proof -
  have h: "pair_view DEFAULT_CONFIG ''u1'' ''usd'' Map.empty = (None, None, None)"
    by (simp add: pair_view_def)
  have before: "getSum DEFAULT_CONFIG ''u1'' ''usd'' store_t1 = Inr ''100''"
    by (simp add: getSum_def get_def store_t1_vals)
  show ?thesis
    using h before clearLedger_complete [of DEFAULT_CONFIG "''u1''" "''usd''" store_t1]
    by blast
qed

section \<open>Independence of pairs\<close>

text \<open>Where the first colon stands decides how a joined string splits.\<close>

lemma split_at_colon:
  assumes "CHR '':'' \<notin> set a" and "CHR '':'' \<notin> set a'"
    and "a @ CHR '':'' # x = a' @ CHR '':'' # y"
  shows "a = a' \<and> x = y"
  using assms
proof (induction a arbitrary: a')
  case Nil
  then show ?case by (cases a') auto
next
  case (Cons h t)
  then show ?case by (cases a') auto
qed

lemma derived_keys_apart:
  assumes "CHR '':'' \<notin> set a" "CHR '':'' \<notin> set c" "CHR '':'' \<notin> set a'" "CHR '':'' \<notin> set c'"
    and "(a, c) \<noteq> (a', c')"
    and "suf \<in> {[], '':total'', '':ctx''}" and "suf' \<in> {[], '':total'', '':ctx''}"
  shows "p @ '':'' @ a @ '':'' @ c @ suf \<noteq> p @ '':'' @ a' @ '':'' @ c' @ suf'"
proof
  assume "p @ '':'' @ a @ '':'' @ c @ suf = p @ '':'' @ a' @ '':'' @ c' @ suf'"
  then have "a @ CHR '':'' # (c @ suf) = a' @ CHR '':'' # (c' @ suf')"
    by simp
  then have aa: "a = a'" and rest: "c @ suf = c' @ suf'"
    using split_at_colon [OF assms(1) assms(3)] by blast+
  have tails: "''total'' \<noteq> ''ctx''" by simp
  have "c = c'"
  proof -
    consider (same) "suf = suf'"
      | (l) "suf = []" "suf' = CHR '':'' # drop 1 suf'"
      | (r) "suf' = []" "suf = CHR '':'' # drop 1 suf"
      | (tc) "suf = '':total''" "suf' = '':ctx''"
      | (ct) "suf = '':ctx''" "suf' = '':total''"
      using assms(6,7) by auto
    then show ?thesis
    proof cases
      case same
      then show ?thesis using rest by simp
    next
      case l
      then have "CHR '':'' \<in> set c" using rest
        by (metis append_Nil2 in_set_conv_decomp)
      then show ?thesis using assms(2) by simp
    next
      case r
      then have "CHR '':'' \<in> set c'" using rest
        by (metis append_Nil2 in_set_conv_decomp)
      then show ?thesis using assms(4) by simp
    next
      case tc
      then have "c @ CHR '':'' # ''total'' = c' @ CHR '':'' # ''ctx''" using rest by simp
      then show ?thesis using split_at_colon [OF assms(2) assms(4)] by blast
    next
      case ct
      then have "c @ CHR '':'' # ''ctx'' = c' @ CHR '':'' # ''total''" using rest by simp
      then show ?thesis using split_at_colon [OF assms(2) assms(4)] by blast
    qed
  qed
  then show False using aa assms(5) by simp
qed

lemma keys_of_pairs_apart:
  assumes "CHR '':'' \<notin> set a" "CHR '':'' \<notin> set c" "CHR '':'' \<notin> set a'" "CHR '':'' \<notin> set c'"
    and "(a, c) \<noteq> (a', c')"
  shows "{getLedgerKey cfg a c, getTotalKey cfg a c, getContextKey cfg a c}
           \<inter> {getLedgerKey cfg a' c', getTotalKey cfg a' c', getContextKey cfg a' c'} = {}"
proof -
  note apart = derived_keys_apart [OF assms, of _ _ "keyPrefix cfg"]
  have "getLedgerKey cfg a c \<noteq> getLedgerKey cfg a' c'"
       "getLedgerKey cfg a c \<noteq> getTotalKey cfg a' c'"
       "getLedgerKey cfg a c \<noteq> getContextKey cfg a' c'"
       "getTotalKey cfg a c \<noteq> getLedgerKey cfg a' c'"
       "getTotalKey cfg a c \<noteq> getTotalKey cfg a' c'"
       "getTotalKey cfg a c \<noteq> getContextKey cfg a' c'"
       "getContextKey cfg a c \<noteq> getLedgerKey cfg a' c'"
       "getContextKey cfg a c \<noteq> getTotalKey cfg a' c'"
       "getContextKey cfg a c \<noteq> getContextKey cfg a' c'"
    unfolding getLedgerKey_def getTotalKey_def getContextKey_def
    using apart [of "[]" "[]"] apart [of "[]" "'':total''"] apart [of "[]" "'':ctx''"]
      apart [of "'':total''" "[]"] apart [of "'':total''" "'':total''"] apart [of "'':total''" "'':ctx''"]
      apart [of "'':ctx''" "[]"] apart [of "'':ctx''" "'':total''"] apart [of "'':ctx''" "'':ctx''"]
    by simp_all
  then show ?thesis by simp
qed

lemma addEntry_other:
  assumes "k \<noteq> getLedgerKey cfg a c" "k \<noteq> getTotalKey cfg a c" "k \<noteq> getContextKey cfg a c"
  shows "snd (addEntry cl cfg a c e s) k = s k"
  using fold_add_group_other [OF assms]
  by (auto simp: addEntry_def Let_def exec_eq split: sum.splits)

lemma removeEntry_other:
  assumes "k \<noteq> getLedgerKey cfg a c" "k \<noteq> getTotalKey cfg a c" "k \<noteq> getContextKey cfg a c"
  shows "snd (removeEntry cl cfg a c i s) k = s k"
  using fold_remove_group_other [OF assms]
  by (auto simp: removeEntry_def removeEntry_exec split: sum.splits option.splits)

lemma clearLedger_other:
  assumes "k \<noteq> getLedgerKey cfg a c" "k \<noteq> getTotalKey cfg a c" "k \<noteq> getContextKey cfg a c"
  shows "snd (clearLedger cfg a c s) k = s k"
  using assms by (simp add: clearLedger_def del_def)

text \<open>
  C8, as stated, fails: account ids and currencies are joined with colons and nothing
  escapes a colon inside them, so the distinct pairs \<open>(''a:b'', ''c'')\<close> and
  \<open>(''a'', ''b:c'')\<close> derive the same keys, and an entry added to one is read through
  the other.
\<close>

theorem colon_keys_collide:
  "(''a:b'', ''c'') \<noteq> (''a'', ''b:c'') \<and>
   getLedgerKey DEFAULT_CONFIG ''a:b'' ''c'' = getLedgerKey DEFAULT_CONFIG ''a'' ''b:c'' \<and>
   getEntry DEFAULT_CONFIG ''a'' ''b:c'' ''t1'' Map.empty = Inr None \<and>
   getEntry DEFAULT_CONFIG ''a'' ''b:c'' ''t1''
     (snd (addEntry NodeRedis DEFAULT_CONFIG ''a:b'' ''c'' entry_t1 Map.empty)) = Inr (Some entry_t1) \<and>
   getEntry DEFAULT_CONFIG ''a'' ''b:c'' ''t1''
     (snd (addEntry IORedis DEFAULT_CONFIG ''a:b'' ''c'' entry_t1 Map.empty)) = Inr (Some entry_t1)"
  by code_simp

text \<open>
  C8, amended. For two distinct pairs whose account ids and currencies contain no colon,
  no derived key of one is a derived key of the other, and \<open>addEntry\<close>,
  \<open>removeEntry\<close> and \<open>clearLedger\<close> on one pair leave the entries hash, the total
  and the per-context sums of the other as they were.
\<close>

theorem pairs_independent:
  assumes "CHR '':'' \<notin> set a" "CHR '':'' \<notin> set c" "CHR '':'' \<notin> set a'" "CHR '':'' \<notin> set c'"
    and "(a, c) \<noteq> (a', c')"
  shows "{getLedgerKey cfg a c, getTotalKey cfg a c, getContextKey cfg a c}
           \<inter> {getLedgerKey cfg a' c', getTotalKey cfg a' c', getContextKey cfg a' c'} = {} \<and>
         pair_view cfg a' c' (snd (addEntry cl cfg a c e s)) = pair_view cfg a' c' s \<and>
         pair_view cfg a' c' (snd (removeEntry cl cfg a c i s)) = pair_view cfg a' c' s \<and>
         pair_view cfg a' c' (snd (clearLedger cfg a c s)) = pair_view cfg a' c' s"
proof -
  note apart = keys_of_pairs_apart [OF assms, of cfg]
  have k: "getLedgerKey cfg a' c' \<noteq> getLedgerKey cfg a c"
          "getLedgerKey cfg a' c' \<noteq> getTotalKey cfg a c"
          "getLedgerKey cfg a' c' \<noteq> getContextKey cfg a c"
    and tk: "getTotalKey cfg a' c' \<noteq> getLedgerKey cfg a c"
          "getTotalKey cfg a' c' \<noteq> getTotalKey cfg a c"
          "getTotalKey cfg a' c' \<noteq> getContextKey cfg a c"
    and ck: "getContextKey cfg a' c' \<noteq> getLedgerKey cfg a c"
          "getContextKey cfg a' c' \<noteq> getTotalKey cfg a c"
          "getContextKey cfg a' c' \<noteq> getContextKey cfg a c"
    using apart by auto
  show ?thesis
    using apart
    by (simp add: pair_view_def addEntry_other [OF k] addEntry_other [OF tk] addEntry_other [OF ck]
          removeEntry_other [OF k] removeEntry_other [OF tk] removeEntry_other [OF ck]
          clearLedger_other [OF k] clearLedger_other [OF tk] clearLedger_other [OF ck])
qed

theorem pairs_independent_witness:
  "CHR '':'' \<notin> set ''u1'' \<and> CHR '':'' \<notin> set ''usd'' \<and> CHR '':'' \<notin> set ''u2'' \<and>
   (''u1'', ''usd'') \<noteq> (''u2'', ''usd'') \<and>
   pair_view DEFAULT_CONFIG ''u2'' ''usd''
       (snd (addEntry NodeRedis DEFAULT_CONFIG ''u1'' ''usd'' entry_t1 Map.empty))
     = pair_view DEFAULT_CONFIG ''u2'' ''usd'' Map.empty \<and>
   pair_view DEFAULT_CONFIG ''u2'' ''usd''
       (snd (removeEntry NodeRedis DEFAULT_CONFIG ''u1'' ''usd'' ''t1'' store_t1))
     = pair_view DEFAULT_CONFIG ''u2'' ''usd'' store_t1 \<and>
   pair_view DEFAULT_CONFIG ''u2'' ''usd'' (snd (clearLedger DEFAULT_CONFIG ''u1'' ''usd'' store_t1))
     = pair_view DEFAULT_CONFIG ''u2'' ''usd'' store_t1"
proof -
  have h1: "CHR '':'' \<notin> set ''u1''" and h2: "CHR '':'' \<notin> set ''usd''"
    and h3: "CHR '':'' \<notin> set ''u2''" and h4: "(''u1'', ''usd'') \<noteq> (''u2'', ''usd'')"
    by simp_all
  note r = pairs_independent [OF h1 h2 h3 h2 h4, of DEFAULT_CONFIG NodeRedis]
  show ?thesis
    using h1 h2 h3 h4 r [of entry_t1 Map.empty] r [of _ store_t1 "''t1''"] by blast
qed

section \<open>Pagination\<close>









section \<open>Where the code departs from the specification\<close>

text \<open>
  C1 (the code departs from the specification). The sums are not the exact decimal sums
  of the amount strings: \<open>addEntry\<close> hands \<open>parseFloat\<close> of the amount to the
  accumulators, and \<open>parseFloat\<close> rounds to binary64. The entry with amount
  \<open>''9007199254740993''\<close> is stored verbatim, and \<open>getSum\<close> is
  \<open>''9007199254740992''\<close>, through either client.
\<close>

theorem getSum_not_exact:
  "fst (addEntry cl DEFAULT_CONFIG ''u1'' ''usd'' entry_big Map.empty) = Inr () \<and>
   getEntry DEFAULT_CONFIG ''u1'' ''usd'' ''t1''
     (snd (addEntry cl DEFAULT_CONFIG ''u1'' ''usd'' entry_big Map.empty)) = Inr (Some entry_big) \<and>
   entry_amount entry_big = ''9007199254740993'' \<and>
   getSum DEFAULT_CONFIG ''u1'' ''usd''
     (snd (addEntry cl DEFAULT_CONFIG ''u1'' ''usd'' entry_big Map.empty)) = Inr ''9007199254740992''"
proof -
  let ?s = "snd (addEntry cl DEFAULT_CONFIG ''u1'' ''usd'' entry_big Map.empty)"
  have vals: "?s (getLedgerKey DEFAULT_CONFIG ''u1'' ''usd'') = Some (RHash [(''t1'', JSON_stringify entry_big)])"
    "?s (getTotalKey DEFAULT_CONFIG ''u1'' ''usd'') = Some (RString ''9007199254740992'')"
    using view_big [of cl] by (simp_all add: pair_view_def)
  have ok: "fst (addEntry cl DEFAULT_CONFIG ''u1'' ''usd'' entry_big Map.empty) = Inr ()"
    by (rule addEntry_big)
  have stored: "getEntry DEFAULT_CONFIG ''u1'' ''usd'' ''t1'' ?s = Inr (Some entry_big)"
    by (simp add: getEntry_def hGet_def vals JSON_parse_stringify JSON_stringify_nonempty)
  have total: "getSum DEFAULT_CONFIG ''u1'' ''usd'' ?s = Inr ''9007199254740992''"
    by (simp add: getSum_def get_def vals)
  show ?thesis
    using ok stored total by (simp add: entry_fields)
qed

text \<open>
  C7 (the code departs from the specification). In the concrete scenario the strings of
  \<open>getBalance\<close> carry no trailing zeros: the accumulators receive the numbers 100 and
  -30, not the strings \<open>''100.00''\<close> and \<open>''-30.00''\<close>. The total is \<open>''70''\<close>, not
  \<open>''70.00''\<close>, and after removing \<open>''t1''\<close> the deposit sum is \<open>''0''\<close>. Both
  additions and the removal resolve through either client.
\<close>

theorem scenario_balance_strings:
  "addEntry cl DEFAULT_CONFIG ''u1'' ''usd'' entry_t1 Map.empty = (Inr (), store_t1) \<and>
   addEntry cl DEFAULT_CONFIG ''u1'' ''usd'' entry_t2 store_t1 = (Inr (), store_t12) \<and>
   getBalance DEFAULT_CONFIG ''u1'' ''usd'' store_t12
     = Inr \<lparr>total_str = ''70'', byContext = [(''deposit'', ''100''), (''withdrawal'', ''-30'')],
            entryCount = 2\<rparr> \<and>
   fst (removeEntry cl DEFAULT_CONFIG ''u1'' ''usd'' ''t1'' store_t12) = Inr True \<and>
   getBalance DEFAULT_CONFIG ''u1'' ''usd''
       (snd (removeEntry cl DEFAULT_CONFIG ''u1'' ''usd'' ''t1'' store_t12))
     = Inr \<lparr>total_str = ''-30'', byContext = [(''deposit'', ''0''), (''withdrawal'', ''-30'')],
            entryCount = 1\<rparr>"
proof -
  have before: "getBalance DEFAULT_CONFIG ''u1'' ''usd'' store_t12
     = Inr \<lparr>total_str = ''70'', byContext = [(''deposit'', ''100''), (''withdrawal'', ''-30'')],
            entryCount = 2\<rparr>"
    by (simp add: getBalance_def get_def hLen_def hGetAll_def store_t12_vals)
  have removed: "fst (removeEntry cl DEFAULT_CONFIG ''u1'' ''usd'' ''t1'' store_t12) = Inr True"
    by (simp add: removeEntry_t1)
  have after: "getBalance DEFAULT_CONFIG ''u1'' ''usd''
                 (snd (removeEntry cl DEFAULT_CONFIG ''u1'' ''usd'' ''t1'' store_t12))
     = Inr \<lparr>total_str = ''-30'', byContext = [(''deposit'', ''0''), (''withdrawal'', ''-30'')],
            entryCount = 1\<rparr>"
    by (simp add: getBalance_def get_def hLen_def hGetAll_def store_after_remove_vals)
  show ?thesis
    using addEntry_t1 [of cl] addEntry_t2 [of cl] before removed after by blast
qed

text \<open>
  C2 (the code departs from the specification). Two concurrent calls of \<open>addEntry\<close>
  with the same entry, scheduled in turns, both pass the existence check before either
  writes: both resolve, none is rejected with \<open>DuplicateEntry\<close>, and the amount is
  counted twice for the one stored entry. Run one after the other, the second call is
  rejected. This holds through either client.
\<close>

theorem concurrent_duplicate_both_succeed:
  "map snd (fst (run_schedule cl DEFAULT_CONFIG ''u1'' ''usd'' [0, 1, 0, 1, 0, 1]
                  ([(entry_t1, Start), (entry_t1, Start)], Map.empty)))
     = [Resolved, Resolved] \<and>
   getBalance DEFAULT_CONFIG ''u1'' ''usd''
     (snd (run_schedule cl DEFAULT_CONFIG ''u1'' ''usd'' [0, 1, 0, 1, 0, 1]
            ([(entry_t1, Start), (entry_t1, Start)], Map.empty)))
     = Inr \<lparr>total_str = ''200'', byContext = [(''deposit'', ''200'')], entryCount = 1\<rparr> \<and>
   map snd (fst (run_schedule cl DEFAULT_CONFIG ''u1'' ''usd'' [0, 0, 0, 1, 1, 1]
                  ([(entry_t1, Start), (entry_t1, Start)], Map.empty)))
     = [Resolved, Rejected DuplicateEntry]"
proof -
  let ?s = "fold apply_command (add_group DEFAULT_CONFIG ''u1'' ''usd'' entry_t1) store_t1"
  have vals: "?s (getLedgerKey DEFAULT_CONFIG ''u1'' ''usd'') = Some (RHash [(''t1'', JSON_stringify entry_t1)])"
    "?s (getTotalKey DEFAULT_CONFIG ''u1'' ''usd'') = Some (RString ''200'')"
    "?s (getContextKey DEFAULT_CONFIG ''u1'' ''usd'') = Some (RHash [(''deposit'', ''200'')])"
    using view_twice by (simp_all add: pair_view_def)
  have bal: "getBalance DEFAULT_CONFIG ''u1'' ''usd'' ?s
     = Inr \<lparr>total_str = ''200'', byContext = [(''deposit'', ''200'')], entryCount = 1\<rparr>"
    by (simp add: getBalance_def get_def hLen_def hGetAll_def vals)
  show ?thesis
    unfolding interleaved_run sequential_run using bal by simp
qed

end
